theory Spec2Isabelle
  imports Complex_Main
begin

section \<open>The practice trainer of \<^verbatim>\<open>src/App/script.js\<close>\<close>

text \<open>
  The script keeps its whole state in global variables; the model threads one record
  \<open>globals\<close> through every function. What the model leaves out is the DOM (texts, colours,
  the modal, the canvas the frames are drawn on): no function of the script reads it back.

  Conventions.
  \<^item> A JavaScript string is the list of the UTF-8 bytes its literal has in the source file;
    two strings are equal exactly when these lists are.
  \<^item> \<open>undefined\<close> and \<open>null\<close> are \<open>None\<close>.
  \<^item> Counters are natural numbers: they start at 0 and are only incremented or reset
    (the limit of exact integers in a double, \<open>2 ^ 53\<close>, is out of reach of a counter that
    grows by one per message).
  \<^item> A number is the real number its double stands for; \<open>>=\<close> on doubles is the order of
    these reals. A literal stands for the double nearest to it, in the source and in a
    message alike. JSON has no NaN.
  \<^item> The messages of the model are the objects that the service sends,
    \<open>{ready: boolean, predicted_action: string, confidence: number}\<close>, the number finite.
    The script does not check this shape. \<open>ready\<close> is read for its truthiness only, and
    before the other two fields: a JSON value that is no object, or an object without a
    truthy \<open>ready\<close>, acts as a message with \<open>ready = False\<close>. What the script does with an
    object that has a truthy \<open>ready\<close> and a \<open>predicted_action\<close> that is no string or a
    \<open>confidence\<close> that is no number is not modelled.
  \<^item> A \<open>TypeError\<close> (a property read on \<open>undefined\<close>) is a value: \<open>Inl\<close> with the globals
    as the statements before the throw left them.
\<close>

subsection \<open>Configuration\<close>

definition letters :: "string list" where
  "letters =
    [[CHR 0xC3, CHR 0xA0, CHR 0xC2, CHR 0xB6, CHR 0xE2, CHR 0x80, CHR 0xA6],
     [CHR 0xC3, CHR 0xA0, CHR 0xC2, CHR 0xB6, CHR 0xE2, CHR 0x80, CHR 0xA0],
     [CHR 0xC3, CHR 0xA0, CHR 0xC2, CHR 0xB6, CHR 0xE2, CHR 0x80, CHR 0xA1],
     [CHR 0xC3, CHR 0xA0, CHR 0xC2, CHR 0xB6, CHR 0xCB, CHR 0x86],
     [CHR 0xC3, CHR 0xA0, CHR 0xC2, CHR 0xB6, CHR 0xE2, CHR 0x80, CHR 0x98],
     [CHR 0xC3, CHR 0xA0, CHR 0xC2, CHR 0xB6, CHR 0xE2, CHR 0x80, CHR 0x99],
     [CHR 0xC3, CHR 0xA0, CHR 0xC2, CHR 0xB6, CHR 0xE2, CHR 0x80, CHR 0xB0],
     [CHR 0xC3, CHR 0xA0, CHR 0xC2, CHR 0xB6, CHR 0xC5, CHR 0xA0],
     [CHR 0xC3, CHR 0xA0, CHR 0xC2, CHR 0xB6, CHR 0xE2, CHR 0x80, CHR 0xB9],
     [CHR 0xC3, CHR 0xA0, CHR 0xC2, CHR 0xB6, CHR 0xC5, CHR 0x92]]"

text \<open>
  \<open>const THRESHOLD = 0.6\<close>: the double nearest to 0.6, which is \<open>5404319552844595 / 2 ^ 53\<close>,
  a little below 0.6. It is also the confidence that \<open>0.6\<close> in a message stands for.
\<close>

definition THRESHOLD :: real where
  "THRESHOLD = 5404319552844595 / 9007199254740992"

definition REQUIRED_ATTEMPTS :: nat where
  "REQUIRED_ATTEMPTS = 3"

text \<open>
  The value of an expression that is compared with \<open>===\<close>: a string, or a member that a
  plain object inherits from \<open>Object.prototype\<close> (a function or an object, one per name,
  equal to itself only).
\<close>

datatype jsval = Str string | Inherited string

definition objectPrototype :: "string list" where
  "objectPrototype =
    [''constructor'', ''hasOwnProperty'', ''isPrototypeOf'', ''propertyIsEnumerable'',
     ''toLocaleString'', ''toString'', ''valueOf'', ''__proto__'',
     ''__defineGetter__'', ''__defineSetter__'', ''__lookupGetter__'', ''__lookupSetter__'']"

text \<open>
  \<open>englishToSinhala[key]\<close>: the ten own properties of the object literal, in the order of the
  source, then the prototype chain; \<open>None\<close> is \<open>undefined\<close>.
\<close>

definition englishToSinhala :: "string \<Rightarrow> jsval option" where
  "englishToSinhala key =
    (if key = ''a_'' then Some (Str [CHR 0xC3, CHR 0xA0, CHR 0xC2, CHR 0xB6, CHR 0xE2, CHR 0x80, CHR 0xA6])
     else if key = ''aa_'' then Some (Str [CHR 0xC3, CHR 0xA0, CHR 0xC2, CHR 0xB6, CHR 0xE2, CHR 0x80, CHR 0xA0])
     else if key = ''ae_'' then Some (Str [CHR 0xC3, CHR 0xA0, CHR 0xC2, CHR 0xB6, CHR 0xE2, CHR 0x80, CHR 0xA1])
     else if key = ''aee_'' then Some (Str [CHR 0xC3, CHR 0xA0, CHR 0xC2, CHR 0xB6, CHR 0xCB, CHR 0x86])
     else if key = ''e_'' then Some (Str [CHR 0xC3, CHR 0xA0, CHR 0xC2, CHR 0xB6, CHR 0xE2, CHR 0x80, CHR 0x98])
     else if key = ''ee_'' then Some (Str [CHR 0xC3, CHR 0xA0, CHR 0xC2, CHR 0xB6, CHR 0xE2, CHR 0x80, CHR 0x99])
     else if key = ''i_'' then Some (Str [CHR 0xC3, CHR 0xA0, CHR 0xC2, CHR 0xB6, CHR 0xE2, CHR 0x80, CHR 0xB0])
     else if key = ''ii_'' then Some (Str [CHR 0xC3, CHR 0xA0, CHR 0xC2, CHR 0xB6, CHR 0xC5, CHR 0xA0])
     else if key = ''u_'' then Some (Str [CHR 0xC3, CHR 0xA0, CHR 0xC2, CHR 0xB6, CHR 0xE2, CHR 0x80, CHR 0xB9])
     else if key = ''uu_'' then Some (Str [CHR 0xC3, CHR 0xA0, CHR 0xC2, CHR 0xB6, CHR 0xC5, CHR 0x92])
     else if key \<in> set objectPrototype then Some (Inherited key)
     else None)"

subsection \<open>Global variables\<close>

type_synonym timestamp = string

record letterStat =
  attempts_stat :: nat
  successes :: nat
  lastCompleted :: "timestamp option"

text \<open>A decoded message of the service (\<open>data\<close> in \<open>handlePrediction\<close>); \<open>ready\<close> is the
  truthiness of \<open>data.ready\<close>.\<close>

record prediction =
  ready :: bool
  predicted_action :: string
  confidence :: real

text \<open>
  \<open>window.practiceProgress\<close>. Its \<open>completed\<close> and \<open>stats\<close> are references to the array and
  the object that \<open>completedLetters\<close> and \<open>letterStats\<close> name (no other array or object is
  ever assigned to them), so only the three numbers are a copy.
\<close>

record progress =
  saved_totalAttempts :: nat
  saved_successfulSigns :: nat
  saved_currentStreak :: nat

datatype readyState = CONNECTING | OPEN | CLOSING | CLOSED

text \<open>The two calls by which \<open>handlePrediction\<close> passes a confirmed observation on.\<close>

datatype call = HandleCorrectSign | HandleIncorrectSign jsval

text \<open>
  The globals of the script, and three parts of its environment: \<open>sockets\<close>, the readyState of
  every WebSocket created so far (\<open>ws\<close> is an index into it); \<open>timeouts\<close>, the delays in ms of
  the pending \<open>setTimeout(initWebSocket, delay)\<close>; and \<open>practiceProgress\<close>. \<open>captureTimer\<close>
  is true when it holds the id of the running interval. \<open>calls\<close> and \<open>sent\<close> are logs, read by
  no function: the calls of the two handlers made by \<open>handlePrediction\<close>, and the socket of
  each \<open>ws.send\<close>.
\<close>

record globals =
  video :: bool
  ws :: "nat option"
  captureTimer :: bool
  currentLetterIndex :: nat
  attempts :: nat
  correctAttempts :: nat
  totalAttempts :: nat
  successfulSigns :: nat
  currentStreak :: nat
  lastPrediction :: "jsval option"
  predictionStabilityCount :: nat
  completedLetters :: "string option list"
  letterStats :: "string \<rightharpoonup> letterStat"
  practiceProgress :: "progress option"
  sockets :: "readyState list"
  timeouts :: "nat list"
  calls :: "call list"
  sent :: "nat list"

datatype error = TypeError

type_synonym result = "(error \<times> globals) + globals"

text \<open>The globals a call leaves behind, returned or thrown.\<close>

definition after :: "result \<Rightarrow> globals" where
  "after r = (case r of Inl (e, s) \<Rightarrow> s | Inr s \<Rightarrow> s)"

text \<open>\<open>letters[i]\<close>: \<open>undefined\<close> out of range.\<close>

definition letterAt :: "nat \<Rightarrow> string option" where
  "letterAt i = (if i < length letters then Some (letters ! i) else None)"

text \<open>The property key that \<open>letterStats[letter]\<close> reads.\<close>

definition propKey :: "string option \<Rightarrow> string" where
  "propKey letter = (case letter of None \<Rightarrow> ''undefined'' | Some l \<Rightarrow> l)"

definition initialGlobals :: globals where
  "initialGlobals =
    \<lparr>video = False, ws = None, captureTimer = False, currentLetterIndex = 0,
     attempts = 0, correctAttempts = 0, totalAttempts = 0, successfulSigns = 0,
     currentStreak = 0, lastPrediction = None, predictionStabilityCount = 0,
     completedLetters = [],
     letterStats = map_of (map (\<lambda>letter. (letter,
        \<lparr>attempts_stat = 0, successes = 0, lastCompleted = None\<rparr>)) letters),
     practiceProgress = None, sockets = [], timeouts = [], calls = [], sent = []\<rparr>"

subsection \<open>Progress\<close>

definition loadProgress :: "globals \<Rightarrow> globals" where
  "loadProgress s =
    (case practiceProgress s of
       None \<Rightarrow> s
     | Some p \<Rightarrow> s\<lparr>totalAttempts := saved_totalAttempts p,
                   successfulSigns := saved_successfulSigns p,
                   currentStreak := saved_currentStreak p\<rparr>)"

definition saveProgress :: "globals \<Rightarrow> globals" where
  "saveProgress s =
    s\<lparr>practiceProgress := Some \<lparr>saved_totalAttempts = totalAttempts s,
                                 saved_successfulSigns = successfulSigns s,
                                 saved_currentStreak = currentStreak s\<rparr>\<rparr>"

subsection \<open>Session Progress Tracker\<close>

definition completeCurrentLetter :: "timestamp \<Rightarrow> globals \<Rightarrow> result" where
  "completeCurrentLetter now s =
    (let letter = letterAt (currentLetterIndex s) in
     if letter \<notin> set (completedLetters s) then
       (let s1 = s\<lparr>completedLetters := completedLetters s @ [letter]\<rparr> in
        case letterStats s1 (propKey letter) of
          None \<Rightarrow> Inl (TypeError, s1)
        | Some st \<Rightarrow>
            Inr (saveProgress
              (s1\<lparr>letterStats := (letterStats s1)(propKey letter \<mapsto> st\<lparr>lastCompleted := Some now\<rparr>)\<rparr>)))
     else Inr (saveProgress s))"

definition handleCorrectSign :: "timestamp \<Rightarrow> globals \<Rightarrow> result" where
  "handleCorrectSign now s =
    (let letter = letterAt (currentLetterIndex s) in
     if correctAttempts s \<ge> REQUIRED_ATTEMPTS then Inr s
     else
       (let s1 = s\<lparr>correctAttempts := correctAttempts s + 1,
                   attempts := attempts s + 1,
                   totalAttempts := totalAttempts s + 1,
                   successfulSigns := successfulSigns s + 1,
                   currentStreak := currentStreak s + 1\<rparr> in
        case letterStats s1 (propKey letter) of
          None \<Rightarrow> Inl (TypeError, s1)
        | Some st \<Rightarrow>
            (let s2 = s1\<lparr>letterStats := (letterStats s1)(propKey letter \<mapsto>
                         st\<lparr>attempts_stat := attempts_stat st + 1, successes := successes st + 1\<rparr>)\<rparr> in
             if correctAttempts s2 \<ge> REQUIRED_ATTEMPTS then
               (case completeCurrentLetter now s2 of
                  Inl e \<Rightarrow> Inl e
                | Inr s3 \<Rightarrow> Inr (saveProgress s3))
             else Inr (saveProgress s2))))"

definition handleIncorrectSign :: "jsval \<Rightarrow> globals \<Rightarrow> result" where
  "handleIncorrectSign detected s =
    (let letter = letterAt (currentLetterIndex s);
         s1 = s\<lparr>attempts := attempts s + 1,
                totalAttempts := totalAttempts s + 1,
                currentStreak := 0\<rparr> in
     case letterStats s1 (propKey letter) of
       None \<Rightarrow> Inl (TypeError, s1)
     | Some st \<Rightarrow>
         Inr (saveProgress
           (s1\<lparr>letterStats := (letterStats s1)(propKey letter \<mapsto>
                 st\<lparr>attempts_stat := attempts_stat st + 1\<rparr>)\<rparr>)))"

text \<open>
  \<open>moveToNextLetter\<close>; \<open>confirmed\<close> is the answer to the \<open>confirm\<close> dialog, asked only past the
  last letter.
\<close>

definition moveToNextLetter :: "bool \<Rightarrow> globals \<Rightarrow> globals" where
  "moveToNextLetter confirmed s =
    (let s1 = s\<lparr>currentLetterIndex := currentLetterIndex s + 1\<rparr>;
         rest = (\<lambda>t. t\<lparr>attempts := 0, correctAttempts := 0,
                        predictionStabilityCount := 0, lastPrediction := None\<rparr>) in
     if currentLetterIndex s1 \<ge> length letters then
       (if confirmed then rest (s1\<lparr>currentLetterIndex := 0\<rparr>)
        else s1\<lparr>currentLetterIndex := length letters - 1\<rparr>)
     else rest s1)"

text \<open>
  The click listener that \<open>renderLetterGrid\<close> puts on the grid item of \<open>letters[index]\<close>;
  \<open>confirmed\<close> is the answer to its \<open>confirm\<close> dialog.
\<close>

definition letterItemClick :: "nat \<Rightarrow> bool \<Rightarrow> globals \<Rightarrow> globals" where
  "letterItemClick index confirmed s =
    (if confirmed then s\<lparr>currentLetterIndex := index, attempts := 0, correctAttempts := 0\<rparr>
     else s)"

subsection \<open>Stability Gate\<close>

text \<open>\<open>englishToSinhala[data.predicted_action] || data.predicted_action\<close>: every value of the
  lookup is truthy, so the raw label is taken exactly when the lookup is \<open>undefined\<close>.\<close>

definition detectedSinhala :: "prediction \<Rightarrow> jsval" where
  "detectedSinhala data =
    (case englishToSinhala (predicted_action data) of
       Some v \<Rightarrow> v
     | None \<Rightarrow> Str (predicted_action data))"

definition handlePrediction :: "prediction \<Rightarrow> timestamp \<Rightarrow> globals \<Rightarrow> result" where
  "handlePrediction data now s =
    (let expectedLetter = letterAt (currentLetterIndex s) in
     if \<not> ready data then Inr s
     else
       (let detected = detectedSinhala data;
            s1 = (if lastPrediction s = Some detected
                  then s\<lparr>predictionStabilityCount := predictionStabilityCount s + 1\<rparr>
                  else s\<lparr>predictionStabilityCount := 1, lastPrediction := Some detected\<rparr>) in
        if predictionStabilityCount s1 \<ge> 3 \<and> confidence data \<ge> THRESHOLD then
          (case (if (case expectedLetter of None \<Rightarrow> False | Some l \<Rightarrow> detected = Str l)
                 then handleCorrectSign now (s1\<lparr>calls := calls s1 @ [HandleCorrectSign]\<rparr>)
                 else handleIncorrectSign detected
                        (s1\<lparr>calls := calls s1 @ [HandleIncorrectSign detected]\<rparr>)) of
             Inl e \<Rightarrow> Inl e
           | Inr s2 \<Rightarrow> Inr (s2\<lparr>predictionStabilityCount := 0, lastPrediction := None\<rparr>))
        else Inr s1))"

text \<open>
  \<open>ws.onmessage\<close>: \<open>JSON.parse\<close> and the call, inside \<open>try\<close>; the \<open>catch\<close> only logs, so the
  globals stay as the throw left them. \<open>msg\<close> is \<open>None\<close> for a text that \<open>JSON.parse\<close> rejects,
  which throws before \<open>handlePrediction\<close> is called, and for the text \<open>null\<close>, where reading
  \<open>data.ready\<close> throws before a global is written.
\<close>

definition onmessage :: "prediction option \<Rightarrow> timestamp \<Rightarrow> globals \<Rightarrow> globals" where
  "onmessage msg now s =
    (case msg of
       None \<Rightarrow> s
     | Some data \<Rightarrow> after (handlePrediction data now s))"

subsection \<open>Connection Manager and Frame Sampler\<close>

text \<open>\<open>ws.readyState\<close>; \<open>None\<close> when \<open>ws\<close> is not set.\<close>

definition wsReadyState :: "globals \<Rightarrow> readyState option" where
  "wsReadyState s =
    (case ws s of
       None \<Rightarrow> None
     | Some i \<Rightarrow> if i < length (sockets s) then Some (sockets s ! i) else None)"

definition initWebcam :: "bool \<Rightarrow> globals \<Rightarrow> globals" where
  "initWebcam found s = s\<lparr>video := found\<rparr>"

text \<open>\<open>ws = new WebSocket(url)\<close>: a new socket, CONNECTING, and \<open>ws\<close> refers to it.\<close>

definition initWebSocket :: "globals \<Rightarrow> globals" where
  "initWebSocket s = s\<lparr>sockets := sockets s @ [CONNECTING], ws := Some (length (sockets s))\<rparr>"

definition startCapturing :: "globals \<Rightarrow> globals" where
  "startCapturing s =
    (if \<not> video s \<or> wsReadyState s \<noteq> Some OPEN then s
     else if captureTimer s then s
     else s\<lparr>captureTimer := True\<rparr>)"

definition stopCapturing :: "globals \<Rightarrow> globals" where
  "stopCapturing s = (if captureTimer s then s\<lparr>captureTimer := False\<rparr> else s)"

text \<open>The function \<open>capture\<close> that the interval runs; with the socket OPEN it draws the
  frame and starts its encoding.\<close>

definition capture :: "globals \<Rightarrow> globals" where
  "capture s = (if wsReadyState s \<noteq> Some OPEN then stopCapturing s else s)"

text \<open>The callback of \<open>canvas.toBlob\<close> with the one of \<open>blob.arrayBuffer()\<close>; \<open>blob\<close> tells
  whether the encoding gave a blob.\<close>

definition toBlobCallback :: "bool \<Rightarrow> globals \<Rightarrow> globals" where
  "toBlobCallback blob s =
    (if \<not> blob then s
     else
       (case ws s of
          None \<Rightarrow> s
        | Some i \<Rightarrow> if wsReadyState s = Some OPEN then s\<lparr>sent := sent s @ [i]\<rparr> else s))"

text \<open>
  \<open>initPracticeMode\<close> loads the progress; the rest of it draws the page and adds the click
  listeners of the next and the skip button, whose clicks are events below. \<open>ws.onerror\<close>
  shows a text and nothing else.
\<close>

definition initPracticeMode :: "globals \<Rightarrow> globals" where
  "initPracticeMode s = loadProgress s"

definition onopen :: "globals \<Rightarrow> globals" where
  "onopen s = initPracticeMode (startCapturing s)"

definition onerror :: "globals \<Rightarrow> globals" where
  "onerror s = s"

definition onclose :: "globals \<Rightarrow> globals" where
  "onclose s = (let s1 = stopCapturing s in s1\<lparr>timeouts := timeouts s1 @ [2000]\<rparr>)"

text \<open>
  The end of a connection, as the WebSocket interface reports it: the readyState of the
  socket becomes CLOSED, then, in the same task, the \<open>error\<close> event is fired when the
  connection failed, and the \<open>close\<close> event in every case.
\<close>

definition connectionLost :: "nat \<Rightarrow> bool \<Rightarrow> globals \<Rightarrow> globals" where
  "connectionLost i failed s =
    (let s1 = s\<lparr>sockets := (sockets s)[i := CLOSED]\<rparr>;
         s2 = (if failed then onerror s1 else s1) in
     onclose s2)"

text \<open>
  The listener of \<open>beforeunload\<close>: \<open>ws.close()\<close> takes a socket that is CONNECTING or OPEN to
  CLOSING and leaves any other as it is.
\<close>

definition beforeunload :: "globals \<Rightarrow> globals" where
  "beforeunload s =
    (let s1 = stopCapturing s in
     case ws s1 of
       None \<Rightarrow> s1
     | Some i \<Rightarrow>
         if i < length (sockets s1) \<and> sockets s1 ! i \<in> {CONNECTING, OPEN}
         then s1\<lparr>sockets := (sockets s1)[i := CLOSING]\<rparr> else s1)"

subsection \<open>The event loop\<close>

text \<open>
  What the browser can run, one callback at a time: the page and the video are loaded, a
  socket opens, delivers a message or is lost, a reconnect timer expires, the interval
  fires, an encoding ends, the learner clicks, the page is left. A click on the next or the
  skip button is one event for each listener that \<open>initPracticeMode\<close> has added; the grid
  has one item for each index of \<open>letters\<close>. An event that cannot occur in a state leaves
  it as it is.
\<close>

datatype event =
    DOMContentLoaded bool
  | LoadedMetadata
  | SocketOpen nat
  | SocketMessage nat "prediction option" timestamp
  | SocketLost nat bool
  | TimeoutFires
  | IntervalFires
  | BlobEncoded bool
  | NextClick bool
  | SkipClick bool bool
  | LetterClick nat bool
  | BeforeUnload

fun step :: "event \<Rightarrow> globals \<Rightarrow> globals" where
  "step (DOMContentLoaded found) s = initWebcam found s"
| "step LoadedMetadata s = (if video s then initWebSocket s else s)"
| "step (SocketOpen i) s =
    (if i < length (sockets s) \<and> sockets s ! i = CONNECTING
     then onopen (s\<lparr>sockets := (sockets s)[i := OPEN]\<rparr>) else s)"
| "step (SocketMessage i msg now) s =
    (if i < length (sockets s) \<and> sockets s ! i \<in> {OPEN, CLOSING}
     then onmessage msg now s else s)"
| "step (SocketLost i failed) s =
    (if i < length (sockets s) \<and> sockets s ! i \<noteq> CLOSED
     then connectionLost i failed s else s)"
| "step TimeoutFires s =
    (case timeouts s of [] \<Rightarrow> s | delay # rest \<Rightarrow> initWebSocket (s\<lparr>timeouts := rest\<rparr>))"
| "step IntervalFires s = (if captureTimer s then capture s else s)"
| "step (BlobEncoded blob) s = toBlobCallback blob s"
| "step (NextClick confirmed) s = moveToNextLetter confirmed s"
| "step (SkipClick sure confirmed) s = (if sure then moveToNextLetter confirmed s else s)"
| "step (LetterClick index confirmed) s =
    (if index < length letters then letterItemClick index confirmed s else s)"
| "step BeforeUnload s = beforeunload s"

definition run :: "event list \<Rightarrow> globals \<Rightarrow> globals" where
  "run events s = fold step events s"

text \<open>The messages of one connection, in the order of their arrival.\<close>

definition feed :: "(prediction \<times> timestamp) list \<Rightarrow> globals \<Rightarrow> globals" where
  "feed msgs s = fold (\<lambda>(data, now). onmessage (Some data) now) msgs s"

text \<open>The calls that one message adds to the log.\<close>

definition emitted :: "prediction \<Rightarrow> timestamp \<Rightarrow> globals \<Rightarrow> call list" where
  "emitted data now s = drop (length (calls s)) (calls (onmessage (Some data) now s))"

subsection \<open>Notions for the properties\<close>

text \<open>The globals the script can be in: the index names a letter, and every letter has its
  statistics. It holds at the start and every event keeps it (\<open>wellFormed_initialGlobals\<close>,
  \<open>wellFormed_run\<close>); then no handler throws.\<close>

definition wellFormed :: "globals \<Rightarrow> bool" where
  "wellFormed s =
    (currentLetterIndex s < length letters \<and> list_all (\<lambda>l. letterStats s l \<noteq> None) letters)"

text \<open>The call that passes the label \<open>detected\<close> on when the letter at \<open>i\<close> is expected.\<close>

definition verdict :: "nat \<Rightarrow> jsval \<Rightarrow> call" where
  "verdict i detected =
    (if (case letterAt i of None \<Rightarrow> False | Some l \<Rightarrow> detected = Str l)
     then HandleCorrectSign else HandleIncorrectSign detected)"

text \<open>The run length that a message with the label \<open>detected\<close> brings the counter to.\<close>

definition runLength :: "jsval \<Rightarrow> globals \<Rightarrow> nat" where
  "runLength detected s =
    (if lastPrediction s = Some detected then predictionStabilityCount s + 1 else 1)"

text \<open>The labels of the accepted (ready) messages, as the gate compares them.\<close>

definition labels :: "(prediction \<times> timestamp) list \<Rightarrow> jsval list" where
  "labels msgs = map detectedSinhala (filter ready (map fst msgs))"

text \<open>For the examples: a time of arrival, and an accepted message with the raw label \<open>a\<close>
  and the confidence \<open>c\<close>.\<close>

definition exampleTime :: timestamp where
  "exampleTime = ''2025-01-01T00:00:00.000Z''"

definition accepted :: "string \<Rightarrow> real \<Rightarrow> prediction \<times> timestamp" where
  "accepted a c = (\<lparr>ready = True, predicted_action = a, confidence = c\<rparr>, exampleTime)"

text \<open>The number of connections that are not closed.\<close>

definition live :: "globals \<Rightarrow> nat" where
  "live s = length (filter (\<lambda>r. r \<noteq> CLOSED) (sockets s))"

section \<open>Properties\<close>

lemma wellFormed_dom:
  "wellFormed s \<longleftrightarrow> currentLetterIndex s < length letters \<and> set letters \<subseteq> dom (letterStats s)"
  by (auto simp: wellFormed_def list_all_iff)

lemma complete_gate:
  "lastPrediction (after (completeCurrentLetter now s)) = lastPrediction s"
  "predictionStabilityCount (after (completeCurrentLetter now s)) = predictionStabilityCount s"
  "calls (after (completeCurrentLetter now s)) = calls s"
  "currentLetterIndex (after (completeCurrentLetter now s)) = currentLetterIndex s"
  by (simp_all add: completeCurrentLetter_def saveProgress_def after_def Let_def split: option.splits)

lemma correct_gate:
  "lastPrediction (after (handleCorrectSign now s)) = lastPrediction s"
  "predictionStabilityCount (after (handleCorrectSign now s)) = predictionStabilityCount s"
  "calls (after (handleCorrectSign now s)) = calls s"
  "currentLetterIndex (after (handleCorrectSign now s)) = currentLetterIndex s"
  by (simp_all add: handleCorrectSign_def completeCurrentLetter_def saveProgress_def after_def Let_def split: option.splits sum.splits)

lemma incorrect_gate:
  "lastPrediction (after (handleIncorrectSign d s)) = lastPrediction s"
  "predictionStabilityCount (after (handleIncorrectSign d s)) = predictionStabilityCount s"
  "calls (after (handleIncorrectSign d s)) = calls s"
  "currentLetterIndex (after (handleIncorrectSign d s)) = currentLetterIndex s"
  by (simp_all add: handleIncorrectSign_def saveProgress_def after_def Let_def split: option.splits)

text \<open>handlers return when the statistics of the current letter exist\<close>

lemma wellFormed_key:
  "wellFormed s \<Longrightarrow> \<exists>st. letterStats s (propKey (letterAt (currentLetterIndex s))) = Some st"
  by (auto simp: wellFormed_dom letterAt_def propKey_def dom_def subset_iff)

lemma complete_returns:
  assumes "wellFormed s"
  shows "\<exists>s'. completeCurrentLetter now s = Inr s' \<and> wellFormed s'"
proof -
  from wellFormed_key [OF assms] obtain st
    where st: "letterStats s (propKey (letterAt (currentLetterIndex s))) = Some st" ..
  show ?thesis
    using assms st
    by (auto simp: completeCurrentLetter_def saveProgress_def wellFormed_dom Let_def)
qed

lemma incorrect_returns:
  assumes "wellFormed s"
  shows "\<exists>s'. handleIncorrectSign d s = Inr s' \<and> wellFormed s'"
proof -
  from wellFormed_key [OF assms] obtain st
    where st: "letterStats s (propKey (letterAt (currentLetterIndex s))) = Some st" ..
  show ?thesis
    using assms st
    by (auto simp: handleIncorrectSign_def saveProgress_def wellFormed_dom Let_def)
qed

lemma correct_returns:
  assumes "wellFormed s"
  shows "\<exists>s'. handleCorrectSign now s = Inr s' \<and> wellFormed s'"
proof (cases "correctAttempts s \<ge> REQUIRED_ATTEMPTS")
  case True
  then show ?thesis using assms by (simp add: handleCorrectSign_def)
next
  case False
  from wellFormed_key [OF assms] obtain st
    where st: "letterStats s (propKey (letterAt (currentLetterIndex s))) = Some st" ..
  define s2 where "s2 = s\<lparr>correctAttempts := correctAttempts s + 1,
                   attempts := attempts s + 1,
                   totalAttempts := totalAttempts s + 1,
                   successfulSigns := successfulSigns s + 1,
                   currentStreak := currentStreak s + 1,
                   letterStats := (letterStats s)(propKey (letterAt (currentLetterIndex s)) \<mapsto>
                         st\<lparr>attempts_stat := attempts_stat st + 1, successes := successes st + 1\<rparr>)\<rparr>"
  have wf2: "wellFormed s2"
    using assms by (auto simp: s2_def wellFormed_dom)
  from complete_returns [OF wf2] obtain s3
    where s3: "completeCurrentLetter now s2 = Inr s3" "wellFormed s3" by blast
  have "handleCorrectSign now s =
     (if correctAttempts s2 \<ge> REQUIRED_ATTEMPTS then
               (case completeCurrentLetter now s2 of
                  Inl e \<Rightarrow> Inl e
                | Inr s3 \<Rightarrow> Inr (saveProgress s3))
             else Inr (saveProgress s2))"
    using False st by (simp add: handleCorrectSign_def Let_def s2_def)
  then show ?thesis
    using s3 wf2 by (auto simp: saveProgress_def wellFormed_dom)
qed

lemma after_reset:
  "calls (after (case r of Inl e \<Rightarrow> Inl e
       | Inr s2 \<Rightarrow> Inr (s2\<lparr>predictionStabilityCount := 0, lastPrediction := None\<rparr>))) = calls (after r)"
  "currentLetterIndex (after (case r of Inl e \<Rightarrow> Inl e
       | Inr s2 \<Rightarrow> Inr (s2\<lparr>predictionStabilityCount := 0, lastPrediction := None\<rparr>))) = currentLetterIndex (after r)"
  by (cases r; auto simp: after_def)+

lemma handlePrediction_not_ready: "\<not> ready d \<Longrightarrow> handlePrediction d now s = Inr s"
  by (simp add: handlePrediction_def)

lemma handlePrediction_calls:
  "ready d \<Longrightarrow> calls (after (handlePrediction d now s)) =
    (if runLength (detectedSinhala d) s \<ge> 3 \<and> confidence d \<ge> THRESHOLD
     then calls s @ [verdict (currentLetterIndex s) (detectedSinhala d)] else calls s)"
  by (simp add: handlePrediction_def Let_def after_reset correct_gate incorrect_gate
      runLength_def verdict_def)
     (simp add: after_def)

lemma handlePrediction_unconfirmed:
  assumes "ready d" "\<not> (runLength (detectedSinhala d) s \<ge> 3 \<and> confidence d \<ge> THRESHOLD)"
  shows "handlePrediction d now s =
    Inr (s\<lparr>predictionStabilityCount := runLength (detectedSinhala d) s,
           lastPrediction := Some (detectedSinhala d)\<rparr>)"
  using assms
  by (cases s) (auto simp: handlePrediction_def Let_def runLength_def)

lemma handlePrediction_confirmed:
  assumes "wellFormed s" "ready d"
    "runLength (detectedSinhala d) s \<ge> 3" "confidence d \<ge> THRESHOLD"
  shows "\<exists>s'. handlePrediction d now s = Inr s' \<and> wellFormed s' \<and>
     lastPrediction s' = None \<and> predictionStabilityCount s' = 0 \<and>
     calls s' = calls s @ [verdict (currentLetterIndex s) (detectedSinhala d)] \<and>
     currentLetterIndex s' = currentLetterIndex s"
proof -
  define l where "l = detectedSinhala d"
  define s1 where "s1 = (if lastPrediction s = Some l
                  then s\<lparr>predictionStabilityCount := predictionStabilityCount s + 1\<rparr>
                  else s\<lparr>predictionStabilityCount := 1, lastPrediction := Some l\<rparr>)"
  define s1c where "s1c = s1\<lparr>calls := calls s1 @ [verdict (currentLetterIndex s) l]\<rparr>"
  have wf1: "wellFormed s1c"
    using assms(1) by (simp add: s1c_def s1_def wellFormed_dom)
  define r where "r = (if verdict (currentLetterIndex s) l = HandleCorrectSign
       then handleCorrectSign now s1c else handleIncorrectSign l s1c)"
  have hp: "handlePrediction d now s =
     (case r of Inl e \<Rightarrow> Inl e
       | Inr s2 \<Rightarrow> Inr (s2\<lparr>predictionStabilityCount := 0, lastPrediction := None\<rparr>))"
    using assms(2-4)
    by (auto simp: handlePrediction_def Let_def r_def s1c_def s1_def l_def runLength_def verdict_def
        split: option.splits)
  have "\<exists>s2. r = Inr s2 \<and> wellFormed s2"
    unfolding r_def using correct_returns [OF wf1, of now] incorrect_returns [OF wf1, of l]
    by (cases "verdict (currentLetterIndex s) l = HandleCorrectSign") simp_all
  then obtain s2 where s2: "r = Inr s2" "wellFormed s2" by blast
  have "calls (after r) = calls s1c" "currentLetterIndex (after r) = currentLetterIndex s1c"
    by (simp_all add: r_def correct_gate incorrect_gate)
  then have "calls s2 = calls s1c" "currentLetterIndex s2 = currentLetterIndex s1c"
    using s2 by (simp_all add: after_def)
  then show ?thesis
    using s2 hp by (simp add: wellFormed_dom s1c_def s1_def l_def)
qed

lemma feed_Nil: "feed [] s = s"
  by (simp add: feed_def)

lemma feed_Cons: "feed ((d, now) # msgs) s = feed msgs (onmessage (Some d) now s)"
  by (simp add: feed_def)

lemma onmessage_Some: "onmessage (Some d) now s = after (handlePrediction d now s)"
  by (simp add: onmessage_def)

lemma gate_step:
  fixes s :: globals and d :: prediction and now :: timestamp and l :: jsval and r :: nat
  assumes wf: "wellFormed s" and d: "ready d" "detectedSinhala d = l" "confidence d \<ge> THRESHOLD"
    and r: "r = (if lastPrediction s = Some l then predictionStabilityCount s else 0)" "r \<le> 2"
  defines "s' \<equiv> onmessage (Some d) now s"
  shows "wellFormed s' \<and> currentLetterIndex s' = currentLetterIndex s \<and>
    (if r = 2
     then calls s' = calls s @ [verdict (currentLetterIndex s) l] \<and> lastPrediction s' = None
          \<and> predictionStabilityCount s' = 0
     else calls s' = calls s \<and> lastPrediction s' = Some l \<and> predictionStabilityCount s' = r + 1)"
proof (cases "r = 2")
  case True
  then have "runLength (detectedSinhala d) s \<ge> 3"
    using r d by (simp add: runLength_def split: if_splits)
  from handlePrediction_confirmed [OF wf d(1) this d(3), of now] True d(2)
  show ?thesis by (auto simp: s'_def onmessage_Some after_def)
next
  case False
  then have rl: "runLength (detectedSinhala d) s = r + 1" "\<not> runLength (detectedSinhala d) s \<ge> 3"
    using r d by (simp_all add: runLength_def split: if_splits)
  then have "\<not> (runLength (detectedSinhala d) s \<ge> 3 \<and> confidence d \<ge> THRESHOLD)" by simp
  from handlePrediction_unconfirmed [OF d(1) this, of now] False wf rl d(2)
  show ?thesis by (simp add: s'_def onmessage_Some after_def wellFormed_dom)
qed

lemma gate_run:
  assumes "wellFormed s"
    and "r = (if lastPrediction s = Some l then predictionStabilityCount s else 0)" "r \<le> 2"
    and "\<forall>(d, now) \<in> set msgs. ready d \<and> detectedSinhala d = l \<and> confidence d \<ge> THRESHOLD"
  shows "calls (feed msgs s) =
     calls s @ replicate ((r + length msgs) div 3) (verdict (currentLetterIndex s) l)"
  using assms
proof (induction msgs arbitrary: s r)
  case Nil
  then show ?case by (simp add: feed_Nil)
next
  case (Cons m msgs)
  obtain d now where m: "m = (d, now)" by (cases m)
  define s' where "s' = onmessage (Some d) now s"
  define r' where "r' = (if lastPrediction s' = Some l then predictionStabilityCount s' else 0)"
  from Cons.prems m have d: "ready d" "detectedSinhala d = l" "confidence d \<ge> THRESHOLD"
    by auto
  note st = gate_step [OF Cons.prems(1) d Cons.prems(2,3), of now, folded s'_def]
  have r'2: "r' \<le> 2" using st Cons.prems(3) by (auto simp: r'_def split: if_splits)
  have rest: "\<forall>(d, now) \<in> set msgs. ready d \<and> detectedSinhala d = l \<and> confidence d \<ge> THRESHOLD"
    using Cons.prems(4) by simp
  have ih: "calls (feed msgs s') =
     calls s' @ replicate ((r' + length msgs) div 3) (verdict (currentLetterIndex s') l)"
    using Cons.IH [of s' r'] st r'2 rest by (simp add: r'_def)
  show ?case
  proof (cases "r = 2")
    case True
    then have "r' = 0" using st by (simp add: r'_def)
    moreover have "(2 + Suc (length msgs)) div 3 = Suc (length msgs div 3)" by simp
    ultimately show ?thesis
      using ih st True by (simp add: m feed_Cons s'_def [symmetric] replicate_app_Cons_same)
  next
    case False
    then have "r' = r + 1" using st by (simp add: r'_def)
    then show ?thesis
      using ih st False by (simp add: m feed_Cons s'_def [symmetric])
  qed
qed

lemma emitted_eq:
  "emitted d now s =
    (if ready d \<and> runLength (detectedSinhala d) s \<ge> 3 \<and> confidence d \<ge> THRESHOLD
     then [verdict (currentLetterIndex s) (detectedSinhala d)] else [])"
proof (cases "ready d")
  case True
  then show ?thesis
    by (simp add: emitted_def onmessage_Some handlePrediction_calls)
next
  case False
  then show ?thesis
    by (simp add: emitted_def onmessage_Some handlePrediction_not_ready after_def)
qed

lemma after_reset_gate:
  "(lastPrediction (after (case r of Inl e \<Rightarrow> Inl e
       | Inr s2 \<Rightarrow> Inr (s2\<lparr>predictionStabilityCount := 0, lastPrediction := None\<rparr>))) = None \<and>
    predictionStabilityCount (after (case r of Inl e \<Rightarrow> Inl e
       | Inr s2 \<Rightarrow> Inr (s2\<lparr>predictionStabilityCount := 0, lastPrediction := None\<rparr>))) = 0) \<or>
   (lastPrediction (after (case r of Inl e \<Rightarrow> Inl e
       | Inr s2 \<Rightarrow> Inr (s2\<lparr>predictionStabilityCount := 0, lastPrediction := None\<rparr>))) = lastPrediction (after r) \<and>
    predictionStabilityCount (after (case r of Inl e \<Rightarrow> Inl e
       | Inr s2 \<Rightarrow> Inr (s2\<lparr>predictionStabilityCount := 0, lastPrediction := None\<rparr>))) = predictionStabilityCount (after r))"
  by (cases r) (auto simp: after_def)

lemma handlePrediction_gate_after:
  assumes "ready d"
  defines "l \<equiv> detectedSinhala d"
  shows "(lastPrediction (after (handlePrediction d now s)) = None \<and>
          predictionStabilityCount (after (handlePrediction d now s)) = 0 \<and>
          runLength l s \<ge> 3 \<and> confidence d \<ge> THRESHOLD) \<or>
         (lastPrediction (after (handlePrediction d now s)) = Some l \<and>
          predictionStabilityCount (after (handlePrediction d now s)) = runLength l s)"
proof (cases "runLength l s \<ge> 3 \<and> confidence d \<ge> THRESHOLD")
  case False
  from handlePrediction_unconfirmed [OF assms(1) False [unfolded l_def], of now]
  show ?thesis by (simp add: after_def l_def)
next
  case True
  define s1 where "s1 = (if lastPrediction s = Some l
                  then s\<lparr>predictionStabilityCount := predictionStabilityCount s + 1\<rparr>
                  else s\<lparr>predictionStabilityCount := 1, lastPrediction := Some l\<rparr>)"
  define r where "r = (if verdict (currentLetterIndex s) l = HandleCorrectSign
       then handleCorrectSign now (s1\<lparr>calls := calls s1 @ [HandleCorrectSign]\<rparr>)
       else handleIncorrectSign l (s1\<lparr>calls := calls s1 @ [HandleIncorrectSign l]\<rparr>))"
  have hp: "handlePrediction d now s =
     (case r of Inl e \<Rightarrow> Inl e
       | Inr s2 \<Rightarrow> Inr (s2\<lparr>predictionStabilityCount := 0, lastPrediction := None\<rparr>))"
    using assms(1) True
    by (auto simp: handlePrediction_def Let_def r_def s1_def l_def runLength_def verdict_def
        split: option.splits)
  have "lastPrediction (after r) = Some l" "predictionStabilityCount (after r) = runLength l s"
    by (simp_all add: r_def correct_gate incorrect_gate s1_def runLength_def)
  with after_reset_gate [of r] True show ?thesis
    unfolding hp by auto
qed

text \<open>The counter never exceeds the number of equal labels that end the accepted ones.\<close>

lemma replicate_suffix3:
  assumes "ls = pre @ replicate k l" "k \<ge> 3"
  shows "\<exists>pre'. ls = pre' @ [l, l, l]"
proof -
  have "replicate k l = replicate (k - 3) l @ replicate 3 l"
    using assms(2) by (simp add: replicate_add [symmetric])
  also have "replicate 3 l = [l, l, l]" by (simp add: numeral_3_eq_3)
  finally show ?thesis using assms(1) by simp
qed

lemma gate_inv_step:
  fixes s :: globals and d :: prediction and now :: timestamp and ls :: "jsval list"
  assumes inv0: "lastPrediction s = None \<longrightarrow> predictionStabilityCount s = 0"
    and inv: "\<forall>l. lastPrediction s = Some l \<longrightarrow>
       (\<exists>pre. ls = pre @ replicate (predictionStabilityCount s) l)"
  defines "s' \<equiv> onmessage (Some d) now s"
    and "ls' \<equiv> (if ready d then ls @ [detectedSinhala d] else ls)"
  shows "lastPrediction s' = None \<longrightarrow> predictionStabilityCount s' = 0"
    and "\<forall>l. lastPrediction s' = Some l \<longrightarrow>
       (\<exists>pre. ls' = pre @ replicate (predictionStabilityCount s') l)"
    and "emitted d now s \<noteq> [] \<Longrightarrow>
       ready d \<and> (\<exists>pre. ls' = pre @ [detectedSinhala d, detectedSinhala d, detectedSinhala d])"
proof -
  define l where "l = detectedSinhala d"
  have run: "\<exists>pre. ls @ [l] = pre @ replicate (runLength l s) l"
  proof (cases "lastPrediction s = Some l")
    case True
    with inv obtain pre where "ls = pre @ replicate (predictionStabilityCount s) l" by auto
    then have "ls @ [l] = pre @ replicate (Suc (predictionStabilityCount s)) l"
      by (simp add: replicate_append_same)
    with True show ?thesis by (auto simp: runLength_def)
  next
    case False
    then show ?thesis by (simp add: runLength_def)
  qed
  show "lastPrediction s' = None \<longrightarrow> predictionStabilityCount s' = 0"
  proof (cases "ready d")
    case False
    then show ?thesis
      using inv0 by (simp add: s'_def onmessage_Some handlePrediction_not_ready after_def)
  next
    case True
    from handlePrediction_gate_after [OF True, of now s]
    show ?thesis by (auto simp: s'_def onmessage_Some)
  qed
  show "\<forall>l. lastPrediction s' = Some l \<longrightarrow>
       (\<exists>pre. ls' = pre @ replicate (predictionStabilityCount s') l)"
  proof (cases "ready d")
    case False
    then show ?thesis
      using inv by (simp add: s'_def ls'_def onmessage_Some handlePrediction_not_ready after_def)
  next
    case True
    from handlePrediction_gate_after [OF True, of now s] run True
    show ?thesis by (auto simp: s'_def ls'_def onmessage_Some l_def)
  qed
  show "ready d \<and> (\<exists>pre. ls' = pre @ [detectedSinhala d, detectedSinhala d, detectedSinhala d])"
    if "emitted d now s \<noteq> []"
  proof -
    from that have g: "ready d" "runLength l s \<ge> 3"
      by (auto simp: emitted_eq l_def split: if_splits)
    from run obtain pre where "ls @ [l] = pre @ replicate (runLength l s) l" ..
    from replicate_suffix3 [OF this g(2)] g(1) show ?thesis
      by (simp add: ls'_def l_def)
  qed
qed

lemma labels_Nil: "labels [] = []"
  by (simp add: labels_def)

lemma labels_Cons:
  "labels ((d, now) # msgs) = (if ready d then [detectedSinhala d] else []) @ labels msgs"
  by (simp add: labels_def)

lemma labels_snoc:
  "labels (msgs @ [(d, now)]) = labels msgs @ (if ready d then [detectedSinhala d] else [])"
  by (simp add: labels_def)

lemma gate_inv_feed:
  assumes "lastPrediction s = None \<longrightarrow> predictionStabilityCount s = 0"
    and "\<forall>l. lastPrediction s = Some l \<longrightarrow>
       (\<exists>pre. ls = pre @ replicate (predictionStabilityCount s) l)"
  shows "(lastPrediction (feed msgs s) = None \<longrightarrow> predictionStabilityCount (feed msgs s) = 0) \<and>
     (\<forall>l. lastPrediction (feed msgs s) = Some l \<longrightarrow>
       (\<exists>pre. ls @ labels msgs = pre @ replicate (predictionStabilityCount (feed msgs s)) l))"
  using assms
proof (induction msgs arbitrary: s ls)
  case Nil
  then show ?case by (simp add: feed_Nil labels_Nil)
next
  case (Cons m msgs)
  obtain d now where m: "m = (d, now)" by (cases m)
  note st = gate_inv_step(1,2) [OF Cons.prems, of d now]
  from Cons.IH [OF st]
  show ?case
    by (simp add: m feed_Cons labels_Cons split: if_splits)
qed

lemma confirmation_needs_three:
  assumes "lastPrediction s = None" "predictionStabilityCount s = 0"
    and "emitted d now (feed msgs s) \<noteq> []"
  shows "ready d \<and> (\<exists>pre. labels (msgs @ [(d, now)]) =
      pre @ [detectedSinhala d, detectedSinhala d, detectedSinhala d])"
proof -
  have a: "lastPrediction s = None \<longrightarrow> predictionStabilityCount s = 0"
    and b: "\<forall>l. lastPrediction s = Some l \<longrightarrow>
       (\<exists>pre. [] = pre @ replicate (predictionStabilityCount s) l)"
    using assms(1,2) by simp_all
  from gate_inv_feed [OF a b, of msgs]
  have a': "lastPrediction (feed msgs s) = None \<longrightarrow> predictionStabilityCount (feed msgs s) = 0"
    and b': "\<forall>l. lastPrediction (feed msgs s) = Some l \<longrightarrow>
       (\<exists>pre. labels msgs = pre @ replicate (predictionStabilityCount (feed msgs s)) l)"
    by simp_all
  from gate_inv_step(3) [OF a' b' assms(3)]
  show ?thesis by (auto simp: labels_snoc)
qed

lemma wellFormed_onmessage:
  assumes "wellFormed s"
  shows "wellFormed (onmessage msg now s)"
proof (cases msg)
  case None
  then show ?thesis using assms by (simp add: onmessage_def)
next
  case (Some d)
  show ?thesis
  proof (cases "ready d \<and> runLength (detectedSinhala d) s \<ge> 3 \<and> confidence d \<ge> THRESHOLD")
    case True
    with handlePrediction_confirmed [OF assms, of d now] Some show ?thesis
      by (auto simp: onmessage_Some after_def)
  next
    case False
    show ?thesis
    proof (cases "ready d")
      case True
      with False have "\<not> (runLength (detectedSinhala d) s \<ge> 3 \<and> confidence d \<ge> THRESHOLD)"
        by simp
      from handlePrediction_unconfirmed [OF True this, of now] assms Some show ?thesis
        by (simp add: onmessage_Some after_def wellFormed_dom)
    next
      case False
      then show ?thesis
        using assms Some by (simp add: onmessage_Some handlePrediction_not_ready after_def)
    qed
  qed
qed

lemma wellFormed_feed: "wellFormed s \<Longrightarrow> wellFormed (feed msgs s)"
proof (induction msgs arbitrary: s)
  case Nil
  then show ?case by (simp add: feed_Nil)
next
  case (Cons m msgs)
  then show ?case by (cases m) (simp add: feed_Cons wellFormed_onmessage)
qed

lemma gate_decision:
  assumes wf: "wellFormed s" and rd: "ready d"
  defines "l \<equiv> detectedSinhala d"
  shows "(if runLength l s \<ge> 3 \<and> confidence d \<ge> THRESHOLD
      then emitted d now s = [verdict (currentLetterIndex s) l] \<and>
           lastPrediction (onmessage (Some d) now s) = None \<and>
           predictionStabilityCount (onmessage (Some d) now s) = 0
      else emitted d now s = [] \<and>
           onmessage (Some d) now s =
             s\<lparr>predictionStabilityCount := runLength l s, lastPrediction := Some l\<rparr>)"
proof (cases "runLength l s \<ge> 3 \<and> confidence d \<ge> THRESHOLD")
  case True
  with handlePrediction_confirmed [OF wf rd, of now] rd show ?thesis
    by (auto simp: emitted_eq onmessage_Some after_def l_def)
next
  case False
  with handlePrediction_unconfirmed [OF rd, of s now] rd show ?thesis
    by (auto simp: emitted_eq onmessage_Some after_def l_def)
qed

lemma handlePrediction_mapped:
  assumes "detectedSinhala d1 = detectedSinhala d2"
  shows "handlePrediction (d2\<lparr>predicted_action := predicted_action d1\<rparr>) now s = handlePrediction d2 now s"
proof -
  have "detectedSinhala (d2\<lparr>predicted_action := predicted_action d1\<rparr>) = detectedSinhala d1"
    by (simp add: detectedSinhala_def split: option.splits)
  with assms show ?thesis
    by (simp add: handlePrediction_def)
qed

lemma unmapped_by_raw_value:
  assumes "predicted_action p \<notin> {''a_'', ''aa_'', ''ae_'', ''aee_'', ''e_'', ''ee_'', ''i_'', ''ii_'', ''u_'', ''uu_''}"
    and "predicted_action q \<notin> {''a_'', ''aa_'', ''ae_'', ''aee_'', ''e_'', ''ee_'', ''i_'', ''ii_'', ''u_'', ''uu_''}"
  shows "detectedSinhala p = detectedSinhala q \<longleftrightarrow> predicted_action p = predicted_action q"
  using assms by (auto simp: detectedSinhala_def englishToSinhala_def)

lemma complete_again:
  "letterAt (currentLetterIndex s) \<in> set (completedLetters s) \<Longrightarrow>
   completeCurrentLetter now s = Inr (saveProgress s)"
  by (simp add: completeCurrentLetter_def)

lemma correct_saturated:
  "correctAttempts s \<ge> REQUIRED_ATTEMPTS \<Longrightarrow> handleCorrectSign now s = Inr s"
  by (simp add: handleCorrectSign_def)

lemma correct_counts:
  "successfulSigns (after (handleCorrectSign now s)) =
     (if correctAttempts s < REQUIRED_ATTEMPTS then successfulSigns s + 1 else successfulSigns s)"
  "correctAttempts (after (handleCorrectSign now s)) =
     (if correctAttempts s < REQUIRED_ATTEMPTS then correctAttempts s + 1 else correctAttempts s)"
  by (auto simp: handleCorrectSign_def completeCurrentLetter_def saveProgress_def after_def Let_def
      split: option.splits sum.splits)

lemma correct_mastered_again:
  assumes "letterAt (currentLetterIndex s) \<in> set (completedLetters s)"
  shows "completedLetters (after (handleCorrectSign now s)) = completedLetters s"
    and "map_option lastCompleted (letterStats (after (handleCorrectSign now s)) k)
       = map_option lastCompleted (letterStats s k)"
  using assms
  by (auto simp: handleCorrectSign_def completeCurrentLetter_def saveProgress_def after_def Let_def
      split: option.splits sum.splits)

lemma incorrect_correctAttempts:
  "correctAttempts (after (handleIncorrectSign l s)) = correctAttempts s"
  by (simp add: handleIncorrectSign_def saveProgress_def after_def Let_def split: option.splits)

lemma after_reset_correctAttempts:
  "correctAttempts (after (case r of Inl e \<Rightarrow> Inl e
       | Inr s2 \<Rightarrow> Inr (s2\<lparr>predictionStabilityCount := 0, lastPrediction := None\<rparr>)))
     = correctAttempts (after r)"
  by (cases r) (auto simp: after_def)

lemma handlePrediction_correctAttempts:
  assumes "correctAttempts s \<le> REQUIRED_ATTEMPTS"
  shows "correctAttempts (after (handlePrediction d now s)) \<le> REQUIRED_ATTEMPTS"
  using assms
  by (simp add: handlePrediction_def Let_def after_reset_correctAttempts correct_counts
      incorrect_correctAttempts)
     (simp add: after_def)

lemma step_correctAttempts:
  assumes "correctAttempts s \<le> REQUIRED_ATTEMPTS"
  shows "correctAttempts (step e s) \<le> REQUIRED_ATTEMPTS"
proof (cases e)
  case (SocketMessage i msg now)
  then show ?thesis
    using assms handlePrediction_correctAttempts [OF assms]
    by (cases msg) (simp_all add: onmessage_def)
next
  case (SocketOpen i)
  then show ?thesis
    using assms
    by (simp add: onopen_def initPracticeMode_def loadProgress_def startCapturing_def
        split: option.splits)
next
  case (SocketLost i failed)
  then show ?thesis
    using assms
    by (simp add: connectionLost_def onclose_def onerror_def stopCapturing_def Let_def)
next
  case TimeoutFires
  then show ?thesis
    using assms by (simp add: initWebSocket_def split: list.splits)
qed (use assms in \<open>simp_all add: initWebcam_def initWebSocket_def capture_def stopCapturing_def
      toBlobCallback_def moveToNextLetter_def letterItemClick_def beforeunload_def Let_def
      split: option.splits\<close>)

lemma run_correctAttempts:
  "correctAttempts s \<le> REQUIRED_ATTEMPTS \<Longrightarrow> correctAttempts (run events s) \<le> REQUIRED_ATTEMPTS"
proof (induction events arbitrary: s)
  case Nil
  then show ?case by (simp add: run_def)
next
  case (Cons e events)
  from Cons.IH [OF step_correctAttempts [OF Cons.prems]] show ?case
    by (simp add: run_def)
qed

lemma mastered_matching:
  assumes "correctAttempts s \<ge> REQUIRED_ATTEMPTS" and "ready d"
    and "letterAt (currentLetterIndex s) = Some l" and "detectedSinhala d = Str l"
  shows "\<exists>c p n. onmessage (Some d) now s =
     s\<lparr>calls := c, lastPrediction := p, predictionStabilityCount := n\<rparr>"
proof (cases "runLength (detectedSinhala d) s \<ge> 3 \<and> confidence d \<ge> THRESHOLD")
  case False
  from handlePrediction_unconfirmed [OF assms(2) False, of now]
  have "onmessage (Some d) now s = s\<lparr>calls := calls s, lastPrediction := Some (detectedSinhala d),
      predictionStabilityCount := runLength (detectedSinhala d) s\<rparr>"
    by (simp add: onmessage_Some after_def)
  then show ?thesis by blast
next
  case True
  define s1 where "s1 = (if lastPrediction s = Some (detectedSinhala d)
                  then s\<lparr>predictionStabilityCount := predictionStabilityCount s + 1\<rparr>
                  else s\<lparr>predictionStabilityCount := 1, lastPrediction := Some (detectedSinhala d)\<rparr>)"
  have hp: "handlePrediction d now s =
     (case handleCorrectSign now (s1\<lparr>calls := calls s1 @ [HandleCorrectSign]\<rparr>) of
        Inl e \<Rightarrow> Inl e
      | Inr s2 \<Rightarrow> Inr (s2\<lparr>predictionStabilityCount := 0, lastPrediction := None\<rparr>))"
    using True assms(2-4)
    by (auto simp: handlePrediction_def Let_def runLength_def s1_def split: if_splits)
  have "correctAttempts (s1\<lparr>calls := calls s1 @ [HandleCorrectSign]\<rparr>) \<ge> REQUIRED_ATTEMPTS"
    using assms(1) by (simp add: s1_def)
  from correct_saturated [OF this, of now] hp
  have "onmessage (Some d) now s = s\<lparr>calls := calls s @ [HandleCorrectSign],
      lastPrediction := None, predictionStabilityCount := 0\<rparr>"
    by (simp add: onmessage_Some after_def s1_def)
  then show ?thesis by blast
qed

lemma step_sent:
  assumes "sent (step e s) \<noteq> sent s"
  shows "wsReadyState s = Some OPEN \<and> (\<exists>i. ws s = Some i \<and> sent (step e s) = sent s @ [i])"
proof (cases e)
  case (SocketMessage i msg now)
  have "sent (after (handlePrediction d now s)) = sent s" for d
    by (simp add: handlePrediction_def handleCorrectSign_def handleIncorrectSign_def
        completeCurrentLetter_def saveProgress_def after_def Let_def
        split: option.splits sum.splits)
  with assms SocketMessage show ?thesis
    by (cases msg) (simp_all add: onmessage_def split: if_splits)
next
  case (BlobEncoded blob)
  with assms show ?thesis
    by (auto simp: toBlobCallback_def split: option.splits if_splits)
qed (use assms in \<open>auto simp: initWebcam_def initWebSocket_def capture_def stopCapturing_def
      onopen_def initPracticeMode_def loadProgress_def startCapturing_def
      connectionLost_def onclose_def onerror_def beforeunload_def
      moveToNextLetter_def letterItemClick_def Let_def split: option.splits list.splits if_splits\<close>)

lemma filter_update_same:
  "i < length xs \<Longrightarrow> P x = P (xs ! i) \<Longrightarrow> length (filter P (xs[i := x])) = length (filter P xs)"
proof (induction xs arbitrary: i)
  case Nil
  then show ?case by simp
next
  case (Cons a xs)
  then show ?case by (cases i) auto
qed

lemma filter_update_drop:
  "i < length xs \<Longrightarrow> P (xs ! i) \<Longrightarrow> \<not> P x \<Longrightarrow>
   Suc (length (filter P (xs[i := x]))) = length (filter P xs)"
proof (induction xs arbitrary: i)
  case Nil
  then show ?case by simp
next
  case (Cons a xs)
  then show ?case by (cases i) auto
qed

lemma handlePrediction_connection:
  "sockets (after (handlePrediction d now s)) = sockets s"
  "timeouts (after (handlePrediction d now s)) = timeouts s"
  by (simp_all add: handlePrediction_def handleCorrectSign_def handleIncorrectSign_def
        completeCurrentLetter_def saveProgress_def after_def Let_def
        split: option.splits sum.splits)

lemma step_live:
  assumes "e \<noteq> LoadedMetadata"
  shows "live (step e s) + length (timeouts (step e s)) = live s + length (timeouts s)"
proof (cases e)
  case LoadedMetadata
  with assms show ?thesis by simp
next
  case (SocketMessage i msg now)
  then show ?thesis
    by (cases msg) (simp_all add: onmessage_def live_def handlePrediction_connection)
next
  case (SocketOpen i)
  have "live (onopen t) = live t" "timeouts (onopen t) = timeouts t" for t
    by (simp_all add: onopen_def initPracticeMode_def loadProgress_def startCapturing_def live_def
        split: option.splits)
  with SocketOpen show ?thesis
    by (simp add: live_def filter_update_same)
next
  case (SocketLost i failed)
  show ?thesis
  proof (cases "i < length (sockets s) \<and> sockets s ! i \<noteq> CLOSED")
    case True
    then have "Suc (length (filter (\<lambda>r. r \<noteq> CLOSED) ((sockets s)[i := CLOSED])))
        = length (filter (\<lambda>r. r \<noteq> CLOSED) (sockets s))"
      by (intro filter_update_drop) simp_all
    with True SocketLost show ?thesis
      by (simp add: live_def connectionLost_def onclose_def onerror_def stopCapturing_def Let_def)
  next
    case False
    with SocketLost show ?thesis by auto
  qed
next
  case TimeoutFires
  then show ?thesis
    by (simp add: live_def initWebSocket_def split: list.splits)
next
  case BeforeUnload
  then show ?thesis
    by (auto simp: live_def beforeunload_def stopCapturing_def Let_def filter_update_same
        split: option.splits)
qed (simp_all add: live_def initWebcam_def capture_def stopCapturing_def toBlobCallback_def
      moveToNextLetter_def letterItemClick_def Let_def split: option.splits)

lemma run_live:
  assumes "LoadedMetadata \<notin> set events"
  shows "live (run events s) + length (timeouts (run events s)) = live s + length (timeouts s)"
  using assms
proof (induction events arbitrary: s)
  case Nil
  then show ?case by (simp add: run_def)
next
  case (Cons e events)
  then have "e \<noteq> LoadedMetadata" "LoadedMetadata \<notin> set events" by auto
  from Cons.IH [OF this(2), of "step e s"] step_live [OF this(1), of s]
  show ?case by (simp add: run_def)
qed

lemma live_zero: "live s = 0 \<longleftrightarrow> (\<forall>r \<in> set (sockets s). r = CLOSED)"
  by (auto simp: live_def filter_empty_conv)

lemma wsReadyState_in_sockets: "wsReadyState s = Some r \<Longrightarrow> r \<in> set (sockets s)"
  by (auto simp: wsReadyState_def split: option.splits if_splits)

lemma wellFormed_step:
  assumes "wellFormed s"
  shows "wellFormed (step e s)"
proof (cases e)
  case (SocketMessage i msg now)
  with assms show ?thesis by (simp add: wellFormed_onmessage)
next
  case (NextClick confirmed)
  with assms show ?thesis
    by (simp add: wellFormed_dom moveToNextLetter_def Let_def letters_def)
next
  case (SkipClick sure confirmed)
  with assms show ?thesis
    by (simp add: wellFormed_dom moveToNextLetter_def Let_def letters_def)
next
  case TimeoutFires
  with assms show ?thesis
    by (simp add: wellFormed_dom initWebSocket_def split: list.splits)
qed (use assms in \<open>simp_all add: wellFormed_dom initWebcam_def initWebSocket_def capture_def
      stopCapturing_def toBlobCallback_def onopen_def initPracticeMode_def loadProgress_def
      startCapturing_def connectionLost_def onclose_def onerror_def beforeunload_def
      letterItemClick_def Let_def split: option.splits\<close>)

lemma wellFormed_run: "wellFormed s \<Longrightarrow> wellFormed (run events s)"
proof (induction events arbitrary: s)
  case Nil
  then show ?case by (simp add: run_def)
next
  case (Cons e events)
  from Cons.IH [OF wellFormed_step [OF Cons.prems]] show ?case
    by (simp add: run_def)
qed

lemma threshold_grid:
  fixes k :: int
  shows "(THRESHOLD \<le> of_int k / 2 ^ 53) =
    ((3 / 5 :: real) \<le> of_int k / 2 ^ 53 \<or> of_int k / 2 ^ 53 = THRESHOLD)"
proof -
  have p: "(2::real) ^ 53 = 9007199254740992" by simp
  have a: "(THRESHOLD \<le> of_int k / 2 ^ 53) = (5404319552844595 \<le> k)"
    unfolding THRESHOLD_def p by (simp add: divide_le_cancel)
  have b: "((3 / 5 :: real) \<le> of_int k / 2 ^ 53) = (5404319552844596 \<le> k)"
  proof -
    have "((3 / 5 :: real) \<le> of_int k / 2 ^ 53) = ((27021597764222976::real) \<le> 5 * of_int k)"
      unfolding p by (simp add: field_simps)
    also have "\<dots> = (of_int (27021597764222976::int) \<le> (of_int (5 * k) :: real))"
      by simp
    also have "\<dots> = (27021597764222976 \<le> 5 * k)"
      by (simp only: of_int_le_iff)
    also have "\<dots> = (5404319552844596 \<le> k)" by presburger
    finally show ?thesis .
  qed
  have c: "(of_int k / 2 ^ 53 = THRESHOLD) = (k = 5404319552844595)"
    unfolding THRESHOLD_def p by simp
  show ?thesis unfolding a b c by presburger
qed

lemma threshold_near: "THRESHOLD < 3 / 5 \<and> 3 / 5 - THRESHOLD < 1 / 2 ^ 54"
  by (simp add: THRESHOLD_def)

lemma correct_stats:
  assumes wf: "wellFormed s"
    and m: "letterAt (currentLetterIndex s) \<in> set (completedLetters s)"
  shows "\<exists>st. letterStats s (letters ! currentLetterIndex s) = Some st \<and>
     letterStats (after (handleCorrectSign now s)) =
       (if correctAttempts s < REQUIRED_ATTEMPTS
        then (letterStats s)(letters ! currentLetterIndex s \<mapsto>
               st\<lparr>attempts_stat := attempts_stat st + 1, successes := successes st + 1\<rparr>)
        else letterStats s)"
proof -
  from wf have la: "letterAt (currentLetterIndex s) = Some (letters ! currentLetterIndex s)"
    by (simp add: wellFormed_dom letterAt_def)
  from wellFormed_key [OF wf] la obtain st
    where st: "letterStats s (letters ! currentLetterIndex s) = Some st"
    by (auto simp: propKey_def)
  show ?thesis
  proof (cases "correctAttempts s < REQUIRED_ATTEMPTS")
    case False
    then show ?thesis using st by (simp add: handleCorrectSign_def after_def)
  next
    case True
    then show ?thesis
      using st la m
      by (simp add: handleCorrectSign_def completeCurrentLetter_def saveProgress_def after_def
          Let_def propKey_def)
  qed
qed

lemma mastered_frame:
  assumes "correctAttempts s \<ge> REQUIRED_ATTEMPTS" and "letterAt (currentLetterIndex s) = Some l"
    and "\<forall>(d, now) \<in> set msgs. ready d \<longrightarrow> detectedSinhala d = Str l"
  shows "\<exists>c p n. feed msgs s = s\<lparr>calls := c, lastPrediction := p, predictionStabilityCount := n\<rparr>"
  using assms
proof (induction msgs arbitrary: s)
  case Nil
  have "s = s\<lparr>calls := calls s, lastPrediction := lastPrediction s,
      predictionStabilityCount := predictionStabilityCount s\<rparr>"
    by simp
  then show ?case unfolding feed_Nil by blast
next
  case (Cons m msgs)
  obtain d now where m: "m = (d, now)" by (cases m)
  have "\<exists>c p n. onmessage (Some d) now s =
      s\<lparr>calls := c, lastPrediction := p, predictionStabilityCount := n\<rparr>"
  proof (cases "ready d")
    case True
    with Cons.prems(3) m have "detectedSinhala d = Str l" by auto
    from mastered_matching [OF Cons.prems(1) True Cons.prems(2) this] show ?thesis .
  next
    case False
    have "s = s\<lparr>calls := calls s, lastPrediction := lastPrediction s,
        predictionStabilityCount := predictionStabilityCount s\<rparr>"
      by simp
    with False show ?thesis
      unfolding onmessage_Some handlePrediction_not_ready [OF False] after_def
      by (simp only: sum.case) blast
  qed
  then obtain c p n where s1: "onmessage (Some d) now s =
      s\<lparr>calls := c, lastPrediction := p, predictionStabilityCount := n\<rparr>" by blast
  define s1 where "s1 = s\<lparr>calls := c, lastPrediction := p, predictionStabilityCount := n\<rparr>"
  have "correctAttempts s1 \<ge> REQUIRED_ATTEMPTS" "letterAt (currentLetterIndex s1) = Some l"
    using Cons.prems(1,2) by (simp_all add: s1_def)
  moreover have "\<forall>(d, now) \<in> set msgs. ready d \<longrightarrow> detectedSinhala d = Str l"
    using Cons.prems(3) by simp
  ultimately obtain c' p' n' where
    "feed msgs s1 = s1\<lparr>calls := c', lastPrediction := p', predictionStabilityCount := n'\<rparr>"
    using Cons.IH [of s1] by blast
  then have "feed (m # msgs) s = s\<lparr>calls := c', lastPrediction := p', predictionStabilityCount := n'\<rparr>"
    by (simp add: m feed_Cons s1 s1_def)
  then show ?case by blast
qed

lemmas eval_defs = feed_def onmessage_def handlePrediction_def handleCorrectSign_def
  handleIncorrectSign_def completeCurrentLetter_def saveProgress_def after_def
  detectedSinhala_def englishToSinhala_def letterAt_def letters_def propKey_def
  initialGlobals_def THRESHOLD_def REQUIRED_ATTEMPTS_def accepted_def Let_def

lemma wellFormed_initialGlobals: "wellFormed initialGlobals"
  by (simp add: wellFormed_dom initialGlobals_def letters_def)

subsection \<open>C1: confirmations of one run\<close>

text \<open>
  Claim C1 says that a run of at least 3 identical labels whose confidence reaches 0.6 is
  confirmed exactly once, whatever its length. The gate resets its counter at each
  confirmation and counts the same label again from 1, so a run that goes on is confirmed
  again at its 6th, 9th, ... message: six messages give two calls.
\<close>

theorem run_of_six_confirmed_twice:
  "calls (feed [accepted ''a_'' 0.875, accepted ''a_'' 0.875, accepted ''a_'' 0.875,
                accepted ''a_'' 0.875, accepted ''a_'' 0.875, accepted ''a_'' 0.875] initialGlobals)
   = [HandleCorrectSign, HandleCorrectSign]"
  by (simp add: eval_defs)

text \<open>
  C1, amended: in globals the script can be in, a run of \<open>n\<close> accepted messages with one
  mapped label \<open>l\<close>, each of confidence at least \<open>THRESHOLD\<close>, that begins where the gate does not
  hold \<open>l\<close> (after a confirmation, an advance, or another label), is confirmed exactly
  \<open>n div 3\<close> times, once at every third message: once for a run of 3, 4 or 5, twice for a
  run of 6.
\<close>

theorem run_confirmed_every_third:
  assumes "wellFormed s" and "lastPrediction s \<noteq> Some l"
    and "\<forall>(d, now) \<in> set msgs. ready d \<and> detectedSinhala d = l \<and> confidence d \<ge> THRESHOLD"
  shows "calls (feed msgs s) =
     calls s @ replicate (length msgs div 3) (verdict (currentLetterIndex s) l)"
  using gate_run [OF assms(1) _ _ assms(3), of 0] assms(2) by simp

theorem run_confirmed_every_third_witness:
  "wellFormed initialGlobals \<and> lastPrediction initialGlobals \<noteq> Some (Str (letters ! 0)) \<and>
   list_all (\<lambda>(d, now). ready d \<and> detectedSinhala d = Str (letters ! 0) \<and> confidence d \<ge> THRESHOLD)
     (replicate 7 (accepted ''a_'' 0.875)) \<and>
   calls (feed (replicate 7 (accepted ''a_'' 0.875)) initialGlobals) =
     [HandleCorrectSign, HandleCorrectSign]"
proof -
  have h2: "lastPrediction initialGlobals \<noteq> Some (Str (letters ! 0))"
    by (simp add: initialGlobals_def)
  have h3: "\<forall>(d, now) \<in> set (replicate 7 (accepted ''a_'' 0.875)).
       ready d \<and> detectedSinhala d = Str (letters ! 0) \<and> confidence d \<ge> THRESHOLD"
    by (simp add: accepted_def detectedSinhala_def englishToSinhala_def letters_def THRESHOLD_def)
  have v: "verdict (currentLetterIndex initialGlobals) (Str (letters ! 0)) = HandleCorrectSign"
    by (simp add: verdict_def initialGlobals_def letterAt_def letters_def)
  have c: "calls initialGlobals = []"
    by (simp add: initialGlobals_def)
  have n: "replicate (length (replicate 7 (accepted ''a_'' 0.875)) div 3) HandleCorrectSign
      = [HandleCorrectSign, HandleCorrectSign]"
    by (simp add: numeral_2_eq_2)
  have "calls (feed (replicate 7 (accepted ''a_'' 0.875)) initialGlobals) =
     [HandleCorrectSign, HandleCorrectSign]"
    unfolding run_confirmed_every_third [OF wellFormed_initialGlobals h2 h3] v c n by simp
  moreover from h3 have "list_all (\<lambda>(d, now). ready d \<and> detectedSinhala d = Str (letters ! 0)
      \<and> confidence d \<ge> THRESHOLD) (replicate 7 (accepted ''a_'' 0.875))"
    unfolding list_all_iff .
  ultimately show ?thesis
    using wellFormed_initialGlobals h2 by blast
qed

subsection \<open>C2: when the gate confirms\<close>

text \<open>
  Claim C2: in globals the script can be in, for an accepted message, with \<open>n\<close> the run
  length after the update of the counter (one more when the label is the previous one, 1
  otherwise), a confirmed observation is emitted exactly when \<open>n \<ge> 3\<close> and the confidence is
  at least the threshold, the double that 0.6 stands for, and a confidence equal to it, as
  0.6 in a message is, is enough; on emission the gate is reset to \<open>{null, 0}\<close>; otherwise
  nothing is emitted and only the gate changes; and from a reset gate no message is
  confirmed unless the last three accepted labels, its own included, are the same. The
  threshold is within \<open>1 / 2 ^ 54\<close> of 0.6, and a multiple of \<open>1 / 2 ^ 53\<close>, as every double
  from one half on is, reaches the threshold exactly when it is at least 0.6 or is the
  threshold itself.
\<close>

theorem gate_confirms_iff:
  assumes "wellFormed s" and "ready d"
  shows "let l = detectedSinhala d;
             n = (if lastPrediction s = Some l then predictionStabilityCount s + 1 else 1);
             s' = onmessage (Some d) now s in
     (emitted d now s \<noteq> [] \<longleftrightarrow> n \<ge> 3 \<and> confidence d \<ge> THRESHOLD) \<and>
     (n \<ge> 3 \<and> confidence d = THRESHOLD \<longrightarrow> emitted d now s \<noteq> []) \<and>
     (emitted d now s \<noteq> [] \<longrightarrow>
        emitted d now s = [verdict (currentLetterIndex s) l] \<and>
        lastPrediction s' = None \<and> predictionStabilityCount s' = 0) \<and>
     (emitted d now s = [] \<longrightarrow>
        s' = s\<lparr>predictionStabilityCount := n, lastPrediction := Some l\<rparr>) \<and>
     (\<forall>s0 msgs. lastPrediction s0 = None \<and> predictionStabilityCount s0 = 0 \<and> s = feed msgs s0
        \<and> emitted d now s \<noteq> [] \<longrightarrow>
        (\<exists>pre. labels (msgs @ [(d, now)]) = pre @ [l, l, l])) \<and>
     THRESHOLD < 0.6 \<and> 0.6 - THRESHOLD < 1 / 2 ^ 54 \<and>
     (\<forall>k::int. THRESHOLD \<le> of_int k / 2 ^ 53 \<longleftrightarrow>
        0.6 \<le> (of_int k / 2 ^ 53 :: real) \<or> of_int k / 2 ^ 53 = THRESHOLD)"
proof -
  have tr: "\<exists>pre. labels (msgs @ [(d, now)]) =
       pre @ [detectedSinhala d, detectedSinhala d, detectedSinhala d]"
    if "lastPrediction s0 = None" "predictionStabilityCount s0 = 0" "s = feed msgs s0"
      "emitted d now s \<noteq> []" for s0 msgs
    using confirmation_needs_three [of s0 d now msgs] that by simp
  have near: "THRESHOLD < 0.6 \<and> 0.6 - THRESHOLD < 1 / 2 ^ 54"
    using threshold_near by simp
  have grid: "THRESHOLD \<le> of_int k / 2 ^ 53 \<longleftrightarrow>
        0.6 \<le> (of_int k / 2 ^ 53 :: real) \<or> of_int k / 2 ^ 53 = THRESHOLD" for k :: int
    using threshold_grid [of k] by simp
  have gate: "(emitted d now s \<noteq> [] \<longleftrightarrow>
        (if lastPrediction s = Some (detectedSinhala d) then predictionStabilityCount s + 1 else 1) \<ge> 3
        \<and> confidence d \<ge> THRESHOLD) \<and>
     (emitted d now s \<noteq> [] \<longrightarrow>
        emitted d now s = [verdict (currentLetterIndex s) (detectedSinhala d)] \<and>
        lastPrediction (onmessage (Some d) now s) = None \<and>
        predictionStabilityCount (onmessage (Some d) now s) = 0) \<and>
     (emitted d now s = [] \<longrightarrow>
        onmessage (Some d) now s = s\<lparr>predictionStabilityCount :=
          (if lastPrediction s = Some (detectedSinhala d) then predictionStabilityCount s + 1 else 1),
          lastPrediction := Some (detectedSinhala d)\<rparr>)"
    using gate_decision [OF assms, of now]
    unfolding runLength_def by (auto split: if_splits)
  from gate have g1: "emitted d now s \<noteq> [] \<longleftrightarrow>
        (if lastPrediction s = Some (detectedSinhala d) then predictionStabilityCount s + 1 else 1) \<ge> 3
        \<and> confidence d \<ge> THRESHOLD"
    by (rule conjunct1)
  then have g2: "(if lastPrediction s = Some (detectedSinhala d) then predictionStabilityCount s + 1 else 1) \<ge> 3
        \<and> confidence d = THRESHOLD \<longrightarrow> emitted d now s \<noteq> []"
    by simp
  from gate have g34: "(emitted d now s \<noteq> [] \<longrightarrow>
        emitted d now s = [verdict (currentLetterIndex s) (detectedSinhala d)] \<and>
        lastPrediction (onmessage (Some d) now s) = None \<and>
        predictionStabilityCount (onmessage (Some d) now s) = 0) \<and>
     (emitted d now s = [] \<longrightarrow>
        onmessage (Some d) now s = s\<lparr>predictionStabilityCount :=
          (if lastPrediction s = Some (detectedSinhala d) then predictionStabilityCount s + 1 else 1),
          lastPrediction := Some (detectedSinhala d)\<rparr>)"
    by (rule conjunct2)
  have g5: "\<forall>s0 msgs. lastPrediction s0 = None \<and> predictionStabilityCount s0 = 0 \<and> s = feed msgs s0
        \<and> emitted d now s \<noteq> [] \<longrightarrow>
        (\<exists>pre. labels (msgs @ [(d, now)]) =
           pre @ [detectedSinhala d, detectedSinhala d, detectedSinhala d])"
    using tr by blast
  have g8: "\<forall>k::int. THRESHOLD \<le> of_int k / 2 ^ 53 \<longleftrightarrow>
        0.6 \<le> (of_int k / 2 ^ 53 :: real) \<or> of_int k / 2 ^ 53 = THRESHOLD"
    using grid by (rule allI)
  show ?thesis
    unfolding Let_def
    by (intro conjI g1 g2 g34 [THEN conjunct1] g34 [THEN conjunct2] g5
        near [THEN conjunct1] near [THEN conjunct2] g8)
qed

theorem gate_confirms_iff_witness:
  "wellFormed (feed [accepted ''a_'' THRESHOLD, accepted ''a_'' THRESHOLD] initialGlobals) \<and>
   ready (fst (accepted ''a_'' THRESHOLD)) \<and>
   confidence (fst (accepted ''a_'' THRESHOLD)) = THRESHOLD \<and>
   emitted (fst (accepted ''a_'' THRESHOLD)) (snd (accepted ''a_'' THRESHOLD))
     (feed [accepted ''a_'' THRESHOLD, accepted ''a_'' THRESHOLD] initialGlobals) = [HandleCorrectSign] \<and>
   lastPrediction (feed [accepted ''a_'' THRESHOLD, accepted ''a_'' THRESHOLD,
     accepted ''a_'' THRESHOLD] initialGlobals) = None \<and>
   predictionStabilityCount (feed [accepted ''a_'' THRESHOLD, accepted ''a_'' THRESHOLD,
     accepted ''a_'' THRESHOLD] initialGlobals) = 0"
proof -
  define s where "s = feed [accepted ''a_'' THRESHOLD, accepted ''a_'' THRESHOLD] initialGlobals"
  define d where "d = fst (accepted ''a_'' THRESHOLD)"
  define t where "t = snd (accepted ''a_'' THRESHOLD)"
  have wf: "wellFormed s"
    unfolding s_def by (rule wellFormed_feed [OF wellFormed_initialGlobals])
  have rd: "ready d" and c: "confidence d = THRESHOLD"
    by (simp_all add: d_def accepted_def)
  have n: "lastPrediction s = Some (detectedSinhala d)" "predictionStabilityCount s = 2"
    unfolding s_def d_def by code_simp+
  have v: "verdict (currentLetterIndex s) (detectedSinhala d) = HandleCorrectSign"
    unfolding s_def d_def by code_simp
  have f: "feed [accepted ''a_'' THRESHOLD, accepted ''a_'' THRESHOLD, accepted ''a_'' THRESHOLD]
      initialGlobals = onmessage (Some d) t s"
    by (simp add: s_def d_def t_def feed_def accepted_def)
  from gate_confirms_iff [OF wf rd, of t] n c
  have e: "emitted d t s \<noteq> []"
    unfolding Let_def by simp
  with gate_confirms_iff [OF wf rd, of t]
  have "emitted d t s = [verdict (currentLetterIndex s) (detectedSinhala d)] \<and>
        lastPrediction (onmessage (Some d) t s) = None \<and>
        predictionStabilityCount (onmessage (Some d) t s) = 0"
    unfolding Let_def by blast
  with wf rd c v f show ?thesis
    unfolding s_def d_def t_def by simp
qed

subsection \<open>C9: the gate compares mapped labels\<close>

text \<open>
  Claim C9: the run length is counted on the mapped label. Of two consecutive accepted
  messages whose raw labels have the same mapped label (the raw labels may differ), the
  second leaves the globals that it would leave with the raw label of the first; when the
  first is not confirmed, the second finds the gate holding that label and brings the
  counter to one more, so it is confirmed exactly when that is at least 3 and its confidence
  reaches the threshold. Two raw labels that are no key of the mapping are compared by their
  raw value.
\<close>

theorem gate_compares_mapped_labels:
  assumes "ready d1" and "ready d2" and "detectedSinhala d1 = detectedSinhala d2"
  shows "let s1 = onmessage (Some d1) t1 s; s2 = onmessage (Some d2) t2 s1 in
     s2 = onmessage (Some (d2\<lparr>predicted_action := predicted_action d1\<rparr>)) t2 s1 \<and>
     (emitted d1 t1 s = [] \<longrightarrow>
        lastPrediction s1 = Some (detectedSinhala d1) \<and>
        (emitted d2 t2 s1 \<noteq> [] \<longleftrightarrow>
           predictionStabilityCount s1 + 1 \<ge> 3 \<and> confidence d2 \<ge> THRESHOLD) \<and>
        (emitted d2 t2 s1 = [] \<longrightarrow>
           predictionStabilityCount s2 = predictionStabilityCount s1 + 1 \<and>
           lastPrediction s2 = lastPrediction s1)) \<and>
     (\<forall>p q. predicted_action p \<notin> {''a_'', ''aa_'', ''ae_'', ''aee_'', ''e_'', ''ee_'', ''i_'', ''ii_'', ''u_'', ''uu_''}
          \<and> predicted_action q \<notin> {''a_'', ''aa_'', ''ae_'', ''aee_'', ''e_'', ''ee_'', ''i_'', ''ii_'', ''u_'', ''uu_''}
        \<longrightarrow> (detectedSinhala p = detectedSinhala q \<longleftrightarrow> predicted_action p = predicted_action q))"
proof -
  define s1 where "s1 = onmessage (Some d1) t1 s"
  have c: "onmessage (Some d2) t2 s1 = onmessage (Some (d2\<lparr>predicted_action := predicted_action d1\<rparr>)) t2 s1"
    by (simp add: onmessage_Some handlePrediction_mapped [OF assms(3)])
  have m: "lastPrediction s1 = Some (detectedSinhala d2) \<and>
        (emitted d2 t2 s1 \<noteq> [] \<longleftrightarrow>
           predictionStabilityCount s1 + 1 \<ge> 3 \<and> confidence d2 \<ge> THRESHOLD) \<and>
        (emitted d2 t2 s1 = [] \<longrightarrow>
           predictionStabilityCount (onmessage (Some d2) t2 s1) = predictionStabilityCount s1 + 1 \<and>
           lastPrediction (onmessage (Some d2) t2 s1) = lastPrediction s1)"
    if e1: "emitted d1 t1 s = []"
  proof -
    from assms(1) e1
    have n1: "\<not> (runLength (detectedSinhala d1) s \<ge> 3 \<and> confidence d1 \<ge> THRESHOLD)"
      by (auto simp: emitted_eq split: if_splits)
    from handlePrediction_unconfirmed [OF assms(1) n1, of t1]
    have l1: "lastPrediction s1 = Some (detectedSinhala d2)"
      by (simp add: s1_def onmessage_Some after_def assms(3))
    then have rl: "runLength (detectedSinhala d2) s1 = predictionStabilityCount s1 + 1"
      by (simp add: runLength_def)
    have a: "emitted d2 t2 s1 \<noteq> [] \<longleftrightarrow>
        predictionStabilityCount s1 + 1 \<ge> 3 \<and> confidence d2 \<ge> THRESHOLD"
      using assms(2) rl by (simp add: emitted_eq)
    have b: "predictionStabilityCount (onmessage (Some d2) t2 s1) = predictionStabilityCount s1 + 1 \<and>
        lastPrediction (onmessage (Some d2) t2 s1) = lastPrediction s1"
      if "emitted d2 t2 s1 = []"
    proof -
      from that a rl
      have "\<not> (runLength (detectedSinhala d2) s1 \<ge> 3 \<and> confidence d2 \<ge> THRESHOLD)"
        by simp
      from handlePrediction_unconfirmed [OF assms(2) this, of t2] rl l1 show ?thesis
        by (simp add: onmessage_Some after_def)
    qed
    from l1 a b show ?thesis by blast
  qed
  from c m unmapped_by_raw_value show ?thesis
    unfolding Let_def s1_def [symmetric] assms(3) by blast
qed

theorem gate_compares_mapped_labels_witness:
  "ready (fst (accepted ''a_'' 0.875)) \<and> ready (fst (accepted (letters ! 0) 0.875)) \<and>
   predicted_action (fst (accepted ''a_'' 0.875)) \<noteq> predicted_action (fst (accepted (letters ! 0) 0.875)) \<and>
   detectedSinhala (fst (accepted ''a_'' 0.875)) = detectedSinhala (fst (accepted (letters ! 0) 0.875)) \<and>
   emitted (fst (accepted ''a_'' 0.875)) exampleTime initialGlobals = [] \<and>
   predictionStabilityCount (onmessage (Some (fst (accepted ''a_'' 0.875))) exampleTime initialGlobals) = 1 \<and>
   predictionStabilityCount (onmessage (Some (fst (accepted (letters ! 0) 0.875))) exampleTime
     (onmessage (Some (fst (accepted ''a_'' 0.875))) exampleTime initialGlobals)) = 2"
proof -
  define d1 where "d1 = fst (accepted ''a_'' 0.875)"
  define d2 where "d2 = fst (accepted (letters ! 0) 0.875)"
  define s1 where "s1 = onmessage (Some d1) exampleTime initialGlobals"
  have h1: "ready d1" and h2: "ready d2"
    by (simp_all add: d1_def d2_def accepted_def)
  have h3: "detectedSinhala d1 = detectedSinhala d2"
    by (simp add: d1_def d2_def accepted_def detectedSinhala_def englishToSinhala_def letters_def
        objectPrototype_def)
  have h4: "emitted d1 exampleTime initialGlobals = []"
    by (simp add: emitted_def d1_def eval_defs)
  have ne: "predicted_action d1 \<noteq> predicted_action d2"
    by (simp add: d1_def d2_def accepted_def letters_def)
  have c1: "predictionStabilityCount s1 = 1"
    by (simp add: s1_def d1_def eval_defs)
  have e2: "emitted d2 exampleTime s1 = []"
    using c1 h2 by (simp add: emitted_eq runLength_def)
  from gate_compares_mapped_labels [OF h1 h2 h3, of exampleTime initialGlobals exampleTime] h4
  have "emitted d2 exampleTime s1 = [] \<longrightarrow>
      predictionStabilityCount (onmessage (Some d2) exampleTime s1) = predictionStabilityCount s1 + 1"
    unfolding Let_def s1_def [symmetric] by blast
  with e2 c1 have "predictionStabilityCount (onmessage (Some d2) exampleTime s1) = 2"
    by simp
  with h1 h2 h3 h4 ne c1 show ?thesis
    unfolding s1_def d1_def d2_def by blast
qed

subsection \<open>C10: a jump keeps the gate\<close>

text \<open>
  Claim C10: a confirmed click on a letter of the grid sets the index and resets \<open>attempts\<close>
  and \<open>correctAttempts\<close> to 0 but leaves \<open>lastPrediction\<close> and \<open>predictionStabilityCount\<close> as
  they are (a declined click changes nothing); so when the gate already holds a label with a
  count of 2 or more, one more accepted message with that label and enough confidence is
  confirmed at once, and judged against the letter just selected.
\<close>

theorem jump_keeps_gate:
  "let s' = letterItemClick i True s in
     currentLetterIndex s' = i \<and> attempts s' = 0 \<and> correctAttempts s' = 0 \<and>
     lastPrediction s' = lastPrediction s \<and>
     predictionStabilityCount s' = predictionStabilityCount s \<and>
     letterItemClick i False s = s \<and>
     (ready d \<and> lastPrediction s = Some (detectedSinhala d) \<and> predictionStabilityCount s \<ge> 2
        \<and> confidence d \<ge> THRESHOLD
      \<longrightarrow> emitted d now s' = [verdict i (detectedSinhala d)])"
  by (simp add: letterItemClick_def emitted_eq runLength_def)

theorem jump_keeps_gate_witness:
  "ready (fst (accepted ''aa_'' 0.875)) \<and>
   lastPrediction (feed (replicate 2 (accepted ''aa_'' 0.875)) initialGlobals)
     = Some (detectedSinhala (fst (accepted ''aa_'' 0.875))) \<and>
   predictionStabilityCount (feed (replicate 2 (accepted ''aa_'' 0.875)) initialGlobals) = 2 \<and>
   confidence (fst (accepted ''aa_'' 0.875)) \<ge> THRESHOLD \<and>
   emitted (fst (accepted ''aa_'' 0.875)) exampleTime
     (letterItemClick 1 True (feed (replicate 2 (accepted ''aa_'' 0.875)) initialGlobals))
     = [HandleCorrectSign]"
proof -
  define s where "s = feed (replicate 2 (accepted ''aa_'' 0.875)) initialGlobals"
  define d where "d = fst (accepted ''aa_'' 0.875)"
  have h1: "ready d" and h4: "confidence d \<ge> THRESHOLD"
    by (simp_all add: d_def accepted_def THRESHOLD_def)
  have h2: "lastPrediction s = Some (detectedSinhala d)"
    unfolding s_def d_def by code_simp
  have h3: "predictionStabilityCount s = 2"
    unfolding s_def by code_simp
  have v: "verdict 1 (detectedSinhala d) = HandleCorrectSign"
    unfolding d_def by code_simp
  from jump_keeps_gate [of 1 s d exampleTime] h1 h2 h3 h4
  have "emitted d exampleTime (letterItemClick 1 True s) = [verdict 1 (detectedSinhala d)]"
    unfolding Let_def by simp
  with h1 h2 h3 h4 v show ?thesis
    unfolding s_def d_def by simp
qed

subsection \<open>C4: advancing\<close>

text \<open>
  Claim C4 says that the round counters and the gate are reset in the clamp outcome as well.
  When the learner declines to start over, \<open>moveToNextLetter\<close> puts the index back on the last
  letter and returns before the resets: after one confirmed and two more accepted messages
  on the last letter, the counters and the gate are what they were.
\<close>

theorem decline_keeps_round:
  "currentLetterIndex (feed (replicate 5 (accepted ''uu_'' 0.875)) (letterItemClick 9 True initialGlobals)) = 9 \<and>
   attempts (moveToNextLetter False
     (feed (replicate 5 (accepted ''uu_'' 0.875)) (letterItemClick 9 True initialGlobals))) = 1 \<and>
   correctAttempts (moveToNextLetter False
     (feed (replicate 5 (accepted ''uu_'' 0.875)) (letterItemClick 9 True initialGlobals))) = 1 \<and>
   predictionStabilityCount (moveToNextLetter False
     (feed (replicate 5 (accepted ''uu_'' 0.875)) (letterItemClick 9 True initialGlobals))) = 2 \<and>
   lastPrediction (moveToNextLetter False
     (feed (replicate 5 (accepted ''uu_'' 0.875)) (letterItemClick 9 True initialGlobals)))
     = Some (Str (letters ! 9)) \<and>
   currentLetterIndex (moveToNextLetter False
     (feed (replicate 5 (accepted ''uu_'' 0.875)) (letterItemClick 9 True initialGlobals))) = 9"
  by code_simp

text \<open>
  C4, amended: \<open>moveToNextLetter\<close> moves to the next letter in the order of the catalog and
  resets \<open>attempts\<close>, \<open>correctAttempts\<close>, \<open>predictionStabilityCount\<close> and \<open>lastPrediction\<close>; past the
  last letter it wraps to the first letter, with the same resets, when the learner confirms,
  and when the learner declines it clamps the index at the last letter and changes nothing
  else, so from the last letter a declined advance leaves the globals as they were.
\<close>

theorem moveToNextLetter_cases:
  "let i = currentLetterIndex s; s' = moveToNextLetter confirmed s in
    (i + 1 < length letters \<longrightarrow>
       s' = s\<lparr>currentLetterIndex := i + 1, attempts := 0, correctAttempts := 0,
              predictionStabilityCount := 0, lastPrediction := None\<rparr>) \<and>
    (i + 1 \<ge> length letters \<and> confirmed \<longrightarrow>
       s' = s\<lparr>currentLetterIndex := 0, attempts := 0, correctAttempts := 0,
              predictionStabilityCount := 0, lastPrediction := None\<rparr>) \<and>
    (i + 1 \<ge> length letters \<and> \<not> confirmed \<longrightarrow>
       s' = s\<lparr>currentLetterIndex := length letters - 1\<rparr>) \<and>
    (i + 1 = length letters \<and> \<not> confirmed \<longrightarrow> s' = s)"
  by (cases s) (auto simp: moveToNextLetter_def Let_def)

theorem moveToNextLetter_cases_witness:
  "currentLetterIndex (feed (replicate 5 (accepted ''uu_'' 0.875)) (letterItemClick 9 True initialGlobals)) + 1
     = length letters \<and>
   moveToNextLetter False (feed (replicate 5 (accepted ''uu_'' 0.875)) (letterItemClick 9 True initialGlobals))
     = feed (replicate 5 (accepted ''uu_'' 0.875)) (letterItemClick 9 True initialGlobals) \<and>
   currentLetterIndex (moveToNextLetter True
     (feed (replicate 5 (accepted ''uu_'' 0.875)) (letterItemClick 9 True initialGlobals))) = 0 \<and>
   predictionStabilityCount (moveToNextLetter True
     (feed (replicate 5 (accepted ''uu_'' 0.875)) (letterItemClick 9 True initialGlobals))) = 0 \<and>
   currentLetterIndex (moveToNextLetter True initialGlobals) = 1"
proof -
  define s where "s = feed (replicate 5 (accepted ''uu_'' 0.875)) (letterItemClick 9 True initialGlobals)"
  have i: "currentLetterIndex s + 1 = length letters"
    unfolding s_def by code_simp
  from moveToNextLetter_cases [of s False] i
  have a: "moveToNextLetter False s = s"
    unfolding Let_def by simp
  from moveToNextLetter_cases [of s True] i
  have "moveToNextLetter True s = s\<lparr>currentLetterIndex := 0, attempts := 0, correctAttempts := 0,
              predictionStabilityCount := 0, lastPrediction := None\<rparr>"
    unfolding Let_def by simp
  then have b: "currentLetterIndex (moveToNextLetter True s) = 0"
    "predictionStabilityCount (moveToNextLetter True s) = 0"
    by simp_all
  have "currentLetterIndex initialGlobals + 1 < length letters"
    by (simp add: initialGlobals_def letters_def)
  with moveToNextLetter_cases [of initialGlobals True]
  have c: "currentLetterIndex (moveToNextLetter True initialGlobals) = 1"
    unfolding Let_def by (simp add: initialGlobals_def)
  from i a b c show ?thesis
    unfolding s_def by simp
qed

subsection \<open>C5: mastering a letter again\<close>

text \<open>
  Claim C5 says that mastering a letter a second time, also by practising it again after a
  jump back to it, leaves \<open>masteredSymbols\<close> and \<open>totalSuccesses\<close> unchanged. The first holds;
  but each confirmed correct sign of the second round is counted: after the letter is
  mastered, a jump back to it and three more confirmed correct signs, \<open>completedLetters\<close> is
  the same and \<open>successfulSigns\<close> and the \<open>successes\<close> of the letter have gone from 3 to 6.
\<close>

theorem mastering_again_counts:
  "completedLetters (feed (replicate 9 (accepted ''a_'' 0.875)) initialGlobals) = [Some (letters ! 0)] \<and>
   successfulSigns (feed (replicate 9 (accepted ''a_'' 0.875)) initialGlobals) = 3 \<and>
   map_option successes (letterStats (feed (replicate 9 (accepted ''a_'' 0.875)) initialGlobals) (letters ! 0))
     = Some 3 \<and>
   completedLetters (feed (replicate 9 (accepted ''a_'' 0.875))
     (letterItemClick 0 True (feed (replicate 9 (accepted ''a_'' 0.875)) initialGlobals)))
     = [Some (letters ! 0)] \<and>
   successfulSigns (feed (replicate 9 (accepted ''a_'' 0.875))
     (letterItemClick 0 True (feed (replicate 9 (accepted ''a_'' 0.875)) initialGlobals))) = 6 \<and>
   map_option successes (letterStats (feed (replicate 9 (accepted ''a_'' 0.875))
     (letterItemClick 0 True (feed (replicate 9 (accepted ''a_'' 0.875)) initialGlobals))) (letters ! 0))
     = Some 6"
  by code_simp

text \<open>
  C5, amended: when the current letter is already in \<open>completedLetters\<close>,
  \<open>completeCurrentLetter\<close> only saves the progress, and a confirmed correct sign leaves
  \<open>completedLetters\<close> and every \<open>lastCompleted\<close> as they are; unless \<open>correctAttempts\<close> has
  reached the required number it adds one to \<open>successfulSigns\<close> and, in globals the script can
  be in, one to the attempts and one to the successes of the letter, and it changes the
  statistics of no other letter.
\<close>

theorem mastering_again:
  assumes "letterAt (currentLetterIndex s) \<in> set (completedLetters s)"
  shows "completeCurrentLetter now s = Inr (saveProgress s) \<and>
     completedLetters (after (handleCorrectSign now s)) = completedLetters s \<and>
     (\<forall>k. map_option lastCompleted (letterStats (after (handleCorrectSign now s)) k)
        = map_option lastCompleted (letterStats s k)) \<and>
     successfulSigns (after (handleCorrectSign now s)) =
       (if correctAttempts s < REQUIRED_ATTEMPTS then successfulSigns s + 1 else successfulSigns s) \<and>
     (wellFormed s \<longrightarrow>
        (\<exists>st. letterStats s (letters ! currentLetterIndex s) = Some st \<and>
           letterStats (after (handleCorrectSign now s)) =
             (if correctAttempts s < REQUIRED_ATTEMPTS
              then (letterStats s)(letters ! currentLetterIndex s \<mapsto>
                     st\<lparr>attempts_stat := attempts_stat st + 1, successes := successes st + 1\<rparr>)
              else letterStats s)))"
  using complete_again [OF assms] correct_mastered_again [OF assms] correct_counts(1)
    correct_stats [OF _ assms]
  by simp

theorem mastering_again_witness:
  "letterAt (currentLetterIndex (letterItemClick 0 True (feed (replicate 9 (accepted ''a_'' 0.875)) initialGlobals)))
     \<in> set (completedLetters (letterItemClick 0 True (feed (replicate 9 (accepted ''a_'' 0.875)) initialGlobals))) \<and>
   wellFormed (letterItemClick 0 True (feed (replicate 9 (accepted ''a_'' 0.875)) initialGlobals)) \<and>
   successfulSigns (letterItemClick 0 True (feed (replicate 9 (accepted ''a_'' 0.875)) initialGlobals)) = 3 \<and>
   map_option successes (letterStats
     (letterItemClick 0 True (feed (replicate 9 (accepted ''a_'' 0.875)) initialGlobals)) (letters ! 0)) = Some 3 \<and>
   successfulSigns (after (handleCorrectSign exampleTime
     (letterItemClick 0 True (feed (replicate 9 (accepted ''a_'' 0.875)) initialGlobals)))) = 4 \<and>
   map_option successes (letterStats (after (handleCorrectSign exampleTime
     (letterItemClick 0 True (feed (replicate 9 (accepted ''a_'' 0.875)) initialGlobals)))) (letters ! 0)) = Some 4 \<and>
   completedLetters (after (handleCorrectSign exampleTime
     (letterItemClick 0 True (feed (replicate 9 (accepted ''a_'' 0.875)) initialGlobals)))) = [Some (letters ! 0)]"
proof -
  define s where "s = letterItemClick 0 True (feed (replicate 9 (accepted ''a_'' 0.875)) initialGlobals)"
  have h: "letterAt (currentLetterIndex s) \<in> set (completedLetters s)"
    unfolding s_def by code_simp
  have wf: "wellFormed s"
    unfolding s_def by code_simp
  have n: "successfulSigns s = 3" "correctAttempts s < REQUIRED_ATTEMPTS"
    "completedLetters s = [Some (letters ! 0)]" "currentLetterIndex s = 0"
    "map_option successes (letterStats s (letters ! 0)) = Some 3"
    unfolding s_def by code_simp+
  from mastering_again [OF h, of exampleTime] n
  have a: "successfulSigns (after (handleCorrectSign exampleTime s)) = 4"
    "completedLetters (after (handleCorrectSign exampleTime s)) = [Some (letters ! 0)]"
    by simp_all
  from mastering_again [OF h, of exampleTime] wf n(2,4) obtain st
    where st: "letterStats s (letters ! 0) = Some st"
      "letterStats (after (handleCorrectSign exampleTime s)) =
         (letterStats s)(letters ! 0 \<mapsto>
            st\<lparr>attempts_stat := attempts_stat st + 1, successes := successes st + 1\<rparr>)"
    by auto
  from st n(5) have b: "map_option successes
      (letterStats (after (handleCorrectSign exampleTime s)) (letters ! 0)) = Some 4"
    by simp
  from h wf n a b show ?thesis
    unfolding s_def by simp
qed

subsection \<open>C6: \<open>correctAttempts\<close> saturates\<close>

text \<open>
  Claim C6: whatever the browser runs (messages, clicks, connection events), \<open>correctAttempts\<close>
  never exceeds the required number, which is 3; once it has reached it, \<open>handleCorrectSign\<close>
  returns the globals as they are, without an error, and no message changes
  \<open>correctAttempts\<close>.
\<close>

theorem correctAttempts_saturates:
  assumes "correctAttempts s \<le> REQUIRED_ATTEMPTS"
  shows "correctAttempts (run events s) \<le> REQUIRED_ATTEMPTS \<and> REQUIRED_ATTEMPTS = 3 \<and>
     (correctAttempts s = REQUIRED_ATTEMPTS \<longrightarrow>
        handleCorrectSign now s = Inr s \<and>
        (\<forall>d. correctAttempts (onmessage (Some d) now s) = REQUIRED_ATTEMPTS))"
proof -
  have "correctAttempts (onmessage (Some d) now s) = REQUIRED_ATTEMPTS"
    if "correctAttempts s = REQUIRED_ATTEMPTS" for d
    using that
    by (simp add: onmessage_Some handlePrediction_def Let_def after_reset_correctAttempts
        correct_counts incorrect_correctAttempts)
       (simp add: after_def)
  with run_correctAttempts [OF assms] correct_saturated [of s now] show ?thesis
    by (simp add: REQUIRED_ATTEMPTS_def)
qed


theorem correctAttempts_saturates_witness:
  "correctAttempts initialGlobals \<le> REQUIRED_ATTEMPTS \<and>
   correctAttempts (run ([DOMContentLoaded True, LoadedMetadata, SocketOpen 0] @
       replicate 12 (SocketMessage 0 (Some (fst (accepted ''a_'' 0.875))) exampleTime)) initialGlobals)
     \<le> REQUIRED_ATTEMPTS \<and>
   correctAttempts (run ([DOMContentLoaded True, LoadedMetadata, SocketOpen 0] @
       replicate 12 (SocketMessage 0 (Some (fst (accepted ''a_'' 0.875))) exampleTime)) initialGlobals) = 3 \<and>
   calls (run ([DOMContentLoaded True, LoadedMetadata, SocketOpen 0] @
       replicate 12 (SocketMessage 0 (Some (fst (accepted ''a_'' 0.875))) exampleTime)) initialGlobals)
     = [HandleCorrectSign, HandleCorrectSign, HandleCorrectSign, HandleCorrectSign] \<and>
   correctAttempts (feed (replicate 9 (accepted ''a_'' 0.875)) initialGlobals) = REQUIRED_ATTEMPTS \<and>
   handleCorrectSign exampleTime (feed (replicate 9 (accepted ''a_'' 0.875)) initialGlobals)
     = Inr (feed (replicate 9 (accepted ''a_'' 0.875)) initialGlobals)"
proof -
  define s where "s = feed (replicate 9 (accepted ''a_'' 0.875)) initialGlobals"
  have h0: "correctAttempts initialGlobals \<le> REQUIRED_ATTEMPTS"
    by (simp add: initialGlobals_def)
  have e: "correctAttempts (run ([DOMContentLoaded True, LoadedMetadata, SocketOpen 0] @
       replicate 12 (SocketMessage 0 (Some (fst (accepted ''a_'' 0.875))) exampleTime)) initialGlobals) = 3"
    "calls (run ([DOMContentLoaded True, LoadedMetadata, SocketOpen 0] @
       replicate 12 (SocketMessage 0 (Some (fst (accepted ''a_'' 0.875))) exampleTime)) initialGlobals)
     = [HandleCorrectSign, HandleCorrectSign, HandleCorrectSign, HandleCorrectSign]"
    by code_simp+
  have h: "correctAttempts s = REQUIRED_ATTEMPTS"
    unfolding s_def by code_simp
  then have "correctAttempts s \<le> REQUIRED_ATTEMPTS" by simp
  from correctAttempts_saturates [OF this, of "[]" exampleTime] h
  have sat: "handleCorrectSign exampleTime s = Inr s" by simp
  from correctAttempts_saturates [OF h0] h0 e h sat show ?thesis
    unfolding s_def by simp
qed

subsection \<open>C7: confirmed observations after mastery\<close>

text \<open>
  Claim C7 says that, once the current letter is mastered, every further confirmed
  observation that arrives while it stays current and before the learner advances is
  ignored. Two runs show otherwise, both with the first letter mastered and current. An
  observation of another letter goes to \<open>handleIncorrectSign\<close>, which has no guard: three
  accepted messages for the second letter take \<open>attempts\<close>, \<open>totalAttempts\<close> and the attempts of
  the letter from 3 to 4 and the streak from 3 to 0. And a click on the grid item of the
  mastered letter itself, which is no advance and leaves it current and mastered, resets
  \<open>correctAttempts\<close>: three accepted messages for this letter then take \<open>successfulSigns\<close>,
  \<open>totalAttempts\<close>, the streak and the successes of the letter from 3 to 4.
\<close>

theorem mastered_counts_other_signs:
  "correctAttempts (feed (replicate 9 (accepted ''a_'' 0.875)) initialGlobals) = 3 \<and>
   completedLetters (feed (replicate 9 (accepted ''a_'' 0.875)) initialGlobals) = [Some (letters ! 0)] \<and>
   currentLetterIndex (feed (replicate 9 (accepted ''a_'' 0.875)) initialGlobals) = 0 \<and>
   attempts (feed (replicate 9 (accepted ''a_'' 0.875)) initialGlobals) = 3 \<and>
   totalAttempts (feed (replicate 9 (accepted ''a_'' 0.875)) initialGlobals) = 3 \<and>
   successfulSigns (feed (replicate 9 (accepted ''a_'' 0.875)) initialGlobals) = 3 \<and>
   currentStreak (feed (replicate 9 (accepted ''a_'' 0.875)) initialGlobals) = 3 \<and>
   map_option attempts_stat
     (letterStats (feed (replicate 9 (accepted ''a_'' 0.875)) initialGlobals) (letters ! 0)) = Some 3 \<and>
   attempts (feed (replicate 3 (accepted ''aa_'' 0.875))
     (feed (replicate 9 (accepted ''a_'' 0.875)) initialGlobals)) = 4 \<and>
   totalAttempts (feed (replicate 3 (accepted ''aa_'' 0.875))
     (feed (replicate 9 (accepted ''a_'' 0.875)) initialGlobals)) = 4 \<and>
   currentStreak (feed (replicate 3 (accepted ''aa_'' 0.875))
     (feed (replicate 9 (accepted ''a_'' 0.875)) initialGlobals)) = 0 \<and>
   map_option attempts_stat
     (letterStats (feed (replicate 3 (accepted ''aa_'' 0.875))
       (feed (replicate 9 (accepted ''a_'' 0.875)) initialGlobals)) (letters ! 0)) = Some 4 \<and>
   currentLetterIndex (letterItemClick 0 True
     (feed (replicate 9 (accepted ''a_'' 0.875)) initialGlobals)) = 0 \<and>
   completedLetters (letterItemClick 0 True
     (feed (replicate 9 (accepted ''a_'' 0.875)) initialGlobals)) = [Some (letters ! 0)] \<and>
   successfulSigns (feed (replicate 3 (accepted ''a_'' 0.875)) (letterItemClick 0 True
     (feed (replicate 9 (accepted ''a_'' 0.875)) initialGlobals))) = 4 \<and>
   totalAttempts (feed (replicate 3 (accepted ''a_'' 0.875)) (letterItemClick 0 True
     (feed (replicate 9 (accepted ''a_'' 0.875)) initialGlobals))) = 4 \<and>
   currentStreak (feed (replicate 3 (accepted ''a_'' 0.875)) (letterItemClick 0 True
     (feed (replicate 9 (accepted ''a_'' 0.875)) initialGlobals))) = 4 \<and>
   map_option successes
     (letterStats (feed (replicate 3 (accepted ''a_'' 0.875)) (letterItemClick 0 True
       (feed (replicate 9 (accepted ''a_'' 0.875)) initialGlobals))) (letters ! 0)) = Some 4"
  by code_simp

text \<open>
  C7, amended: as long as \<open>correctAttempts\<close> has the required number, which it keeps until a
  click resets the round, every further confirmed observation of the current letter is
  ignored: a sequence of messages whose accepted ones all carry the current letter, however
  many of them are confirmed, leaves \<open>attempts\<close>, \<open>correctAttempts\<close>, \<open>totalAttempts\<close>,
  \<open>successfulSigns\<close>, \<open>currentStreak\<close>, \<open>letterStats\<close>, \<open>completedLetters\<close>, the index and the saved
  progress as they are.
\<close>

theorem mastered_ignores_matching:
  assumes "correctAttempts s \<ge> REQUIRED_ATTEMPTS" and "letterAt (currentLetterIndex s) = Some l"
    and "\<forall>(d, now) \<in> set msgs. ready d \<longrightarrow> detectedSinhala d = Str l"
  shows "let s' = feed msgs s in
     attempts s' = attempts s \<and> correctAttempts s' = correctAttempts s \<and>
     totalAttempts s' = totalAttempts s \<and> successfulSigns s' = successfulSigns s \<and>
     currentStreak s' = currentStreak s \<and> letterStats s' = letterStats s \<and>
     completedLetters s' = completedLetters s \<and> currentLetterIndex s' = currentLetterIndex s \<and>
     practiceProgress s' = practiceProgress s"
proof -
  from mastered_frame [OF assms] obtain c p n
    where "feed msgs s = s\<lparr>calls := c, lastPrediction := p, predictionStabilityCount := n\<rparr>"
    by blast
  then show ?thesis by (simp add: Let_def)
qed

theorem mastered_ignores_matching_witness:
  "correctAttempts (feed (replicate 9 (accepted ''a_'' 0.875)) initialGlobals) \<ge> REQUIRED_ATTEMPTS \<and>
   letterAt (currentLetterIndex (feed (replicate 9 (accepted ''a_'' 0.875)) initialGlobals))
     = Some (letters ! 0) \<and>
   list_all (\<lambda>(d, now). ready d \<longrightarrow> detectedSinhala d = Str (letters ! 0))
     (replicate 6 (accepted ''a_'' 0.875)) \<and>
   calls (feed (replicate 6 (accepted ''a_'' 0.875)) (feed (replicate 9 (accepted ''a_'' 0.875)) initialGlobals))
     = [HandleCorrectSign, HandleCorrectSign, HandleCorrectSign, HandleCorrectSign, HandleCorrectSign] \<and>
   attempts (feed (replicate 6 (accepted ''a_'' 0.875)) (feed (replicate 9 (accepted ''a_'' 0.875)) initialGlobals))
     = attempts (feed (replicate 9 (accepted ''a_'' 0.875)) initialGlobals) \<and>
   successfulSigns (feed (replicate 6 (accepted ''a_'' 0.875)) (feed (replicate 9 (accepted ''a_'' 0.875)) initialGlobals))
     = 3 \<and>
   letterStats (feed (replicate 6 (accepted ''a_'' 0.875)) (feed (replicate 9 (accepted ''a_'' 0.875)) initialGlobals))
     = letterStats (feed (replicate 9 (accepted ''a_'' 0.875)) initialGlobals)"
proof -
  define s where "s = feed (replicate 9 (accepted ''a_'' 0.875)) initialGlobals"
  have h: "correctAttempts s \<ge> REQUIRED_ATTEMPTS"
    "letterAt (currentLetterIndex s) = Some (letters ! 0)"
    unfolding s_def by code_simp+
  have m: "\<forall>(d, now) \<in> set (replicate 6 (accepted ''a_'' 0.875)).
      ready d \<longrightarrow> detectedSinhala d = Str (letters ! 0)"
    by (simp add: accepted_def detectedSinhala_def englishToSinhala_def letters_def)
  then have m': "list_all (\<lambda>(d, now). ready d \<longrightarrow> detectedSinhala d = Str (letters ! 0))
     (replicate 6 (accepted ''a_'' 0.875))"
    unfolding list_all_iff .
  have g: "calls (feed (replicate 6 (accepted ''a_'' 0.875)) s)
     = [HandleCorrectSign, HandleCorrectSign, HandleCorrectSign, HandleCorrectSign, HandleCorrectSign]"
    "successfulSigns s = 3"
    unfolding s_def by code_simp+
  from mastered_ignores_matching [OF h m]
  have "attempts (feed (replicate 6 (accepted ''a_'' 0.875)) s) = attempts s"
    "successfulSigns (feed (replicate 6 (accepted ''a_'' 0.875)) s) = successfulSigns s"
    "letterStats (feed (replicate 6 (accepted ''a_'' 0.875)) s) = letterStats s"
    unfolding Let_def by simp_all
  with h m' g show ?thesis
    unfolding s_def by simp
qed

subsection \<open>C3: a connect request is never ignored\<close>

text \<open>
  Claim C3 says that a connect request made while the connection is Connecting or Open is
  ignored. \<open>initWebSocket\<close> has no such test: called with the socket OPEN, or CONNECTING, it
  creates a second socket beside the first and makes \<open>ws\<close> refer to it.
\<close>

theorem reconnect_while_open:
  "wsReadyState (run [DOMContentLoaded True, LoadedMetadata, SocketOpen 0] initialGlobals) = Some OPEN \<and>
   sockets (run [DOMContentLoaded True, LoadedMetadata, SocketOpen 0] initialGlobals) = [OPEN] \<and>
   sockets (initWebSocket (run [DOMContentLoaded True, LoadedMetadata, SocketOpen 0] initialGlobals))
     = [OPEN, CONNECTING] \<and>
   ws (initWebSocket (run [DOMContentLoaded True, LoadedMetadata, SocketOpen 0] initialGlobals)) = Some 1 \<and>
   wsReadyState (run [DOMContentLoaded True, LoadedMetadata] initialGlobals) = Some CONNECTING \<and>
   sockets (initWebSocket (run [DOMContentLoaded True, LoadedMetadata] initialGlobals))
     = [CONNECTING, CONNECTING]"
  by code_simp

text \<open>
  C3, amended: \<open>initWebSocket\<close> ignores no request. In every state it creates one more
  connection, CONNECTING, which becomes the current one, and leaves the connections that
  exist as they are, so there is one more connection that is not closed. The script itself
  asks for a reconnection only from the timer of \<open>onclose\<close>: as long as \<open>loadedmetadata\<close> is not
  fired again, whenever such a timer is pending every connection is closed, and none is
  Connecting or Open.
\<close>

theorem initWebSocket_always_connects:
  "sockets (initWebSocket s) = sockets s @ [CONNECTING] \<and>
   ws (initWebSocket s) = Some (length (sockets s)) \<and>
   wsReadyState (initWebSocket s) = Some CONNECTING \<and>
   live (initWebSocket s) = live s + 1 \<and>
   (\<forall>events. live s + length (timeouts s) \<le> 1 \<and> LoadedMetadata \<notin> set events \<and>
       timeouts (run events s) \<noteq> [] \<longrightarrow>
       live (run events s) = 0 \<and> wsReadyState (run events s) \<notin> {Some CONNECTING, Some OPEN})"
proof -
  have "live (run events s) = 0 \<and> wsReadyState (run events s) \<notin> {Some CONNECTING, Some OPEN}"
    if "live s + length (timeouts s) \<le> 1" "LoadedMetadata \<notin> set events"
      "timeouts (run events s) \<noteq> []" for events
  proof -
    from run_live [OF that(2), of s] that(1,3) have z: "live (run events s) = 0"
      by (cases "timeouts (run events s)") simp_all
    then have "\<forall>r \<in> set (sockets (run events s)). r = CLOSED"
      by (simp add: live_zero)
    with wsReadyState_in_sockets [of "run events s"] z show ?thesis
      by auto
  qed
  then show ?thesis
    by (simp add: initWebSocket_def wsReadyState_def live_def)
qed

theorem initWebSocket_always_connects_witness:
  "live (run [DOMContentLoaded True, LoadedMetadata] initialGlobals)
     + length (timeouts (run [DOMContentLoaded True, LoadedMetadata] initialGlobals)) \<le> 1 \<and>
   LoadedMetadata \<notin> set [SocketOpen 0, SocketLost 0 True] \<and>
   timeouts (run [SocketOpen 0, SocketLost 0 True]
     (run [DOMContentLoaded True, LoadedMetadata] initialGlobals)) = [2000] \<and>
   live (run [SocketOpen 0, SocketLost 0 True]
     (run [DOMContentLoaded True, LoadedMetadata] initialGlobals)) = 0 \<and>
   sockets (run [SocketOpen 0, SocketLost 0 True, TimeoutFires]
     (run [DOMContentLoaded True, LoadedMetadata] initialGlobals)) = [CLOSED, CONNECTING]"
proof -
  define s where "s = run [DOMContentLoaded True, LoadedMetadata] initialGlobals"
  have h1: "live s + length (timeouts s) \<le> 1"
    unfolding s_def by code_simp
  have h2: "LoadedMetadata \<notin> set [SocketOpen 0, SocketLost 0 True]"
    by simp
  have h3: "timeouts (run [SocketOpen 0, SocketLost 0 True] s) = [2000]"
    unfolding s_def by code_simp
  have h4: "sockets (run [SocketOpen 0, SocketLost 0 True, TimeoutFires] s) = [CLOSED, CONNECTING]"
    unfolding s_def by code_simp
  from initWebSocket_always_connects [of s] h1 h2 h3
  have "live (run [SocketOpen 0, SocketLost 0 True] s) = 0"
    by (metis list.distinct(1))
  with h1 h2 h3 h4 show ?thesis
    unfolding s_def by blast
qed

subsection \<open>C8: the loss of the connection\<close>

text \<open>
  Claim C8: when a connection ends, by a transport error or by a close, the frame sampler is
  stopped (\<open>captureTimer\<close> is cleared, so no tick runs) and exactly one
  \<open>setTimeout(initWebSocket, 2000)\<close> is added, whose expiry calls \<open>initWebSocket\<close>; the socket
  is CLOSED, so its loss is reported once. While \<open>ws\<close> is not OPEN a tick only stops the
  sampler, \<open>startCapturing\<close> does not start it, and no event sends a frame.
\<close>

theorem connection_lost:
  "let s' = connectionLost i failed s in
     captureTimer s' = False \<and> step IntervalFires s' = s' \<and>
     timeouts s' = timeouts s @ [2000] \<and>
     (i < length (sockets s) \<longrightarrow> sockets s' ! i = CLOSED \<and> step (SocketLost i failed) s' = s') \<and>
     (timeouts s = [] \<longrightarrow> step TimeoutFires s' = initWebSocket (s'\<lparr>timeouts := []\<rparr>)) \<and>
     (\<forall>t. wsReadyState t \<noteq> Some OPEN \<longrightarrow>
        captureTimer (capture t) = False \<and> captureTimer (startCapturing t) = captureTimer t) \<and>
     (\<forall>e t. sent (step e t) \<noteq> sent t \<longrightarrow> wsReadyState t = Some OPEN)"
proof -
  have a: "captureTimer (capture t) = False \<and> captureTimer (startCapturing t) = captureTimer t"
    if "wsReadyState t \<noteq> Some OPEN" for t
    using that by (simp add: capture_def stopCapturing_def startCapturing_def)
  have b: "wsReadyState t = Some OPEN" if "sent (step e t) \<noteq> sent t" for e t
    using step_sent [OF that] by simp
  show ?thesis
    using a b
    by (simp add: Let_def connectionLost_def onclose_def onerror_def stopCapturing_def)
qed

theorem connection_lost_witness:
  "captureTimer (run [DOMContentLoaded True, LoadedMetadata, SocketOpen 0] initialGlobals) = True \<and>
   sockets (run [DOMContentLoaded True, LoadedMetadata, SocketOpen 0] initialGlobals) = [OPEN] \<and>
   timeouts (run [DOMContentLoaded True, LoadedMetadata, SocketOpen 0] initialGlobals) = [] \<and>
   captureTimer (connectionLost 0 True
     (run [DOMContentLoaded True, LoadedMetadata, SocketOpen 0] initialGlobals)) = False \<and>
   timeouts (connectionLost 0 True
     (run [DOMContentLoaded True, LoadedMetadata, SocketOpen 0] initialGlobals)) = [2000] \<and>
   sockets (connectionLost 0 True
     (run [DOMContentLoaded True, LoadedMetadata, SocketOpen 0] initialGlobals)) ! 0 = CLOSED"
proof -
  define s where "s = run [DOMContentLoaded True, LoadedMetadata, SocketOpen 0] initialGlobals"
  have h: "captureTimer s = True" "sockets s = [OPEN]" "timeouts s = []"
    unfolding s_def by code_simp+
  from connection_lost [of 0 True s] h
  have "captureTimer (connectionLost 0 True s) = False"
    "timeouts (connectionLost 0 True s) = [2000]"
    "sockets (connectionLost 0 True s) ! 0 = CLOSED"
    unfolding Let_def by simp_all
  with h show ?thesis
    unfolding s_def by simp
qed

end
